theory Spec2Isabelle
  imports Complex_Main "HOL-Library.Signed_Division"
begin

section \<open>Conventions of the embedding\<close>

text \<open>
  The development embeds \<^verbatim>\<open>src/models/tree/build_tree.cc\<close>, the CPU variant of the
  tree builder, as one task instance running on one shard.

  \<^item> C++ \<^verbatim>\<open>double\<close> (and the feature type \<^verbatim>\<open>T\<close>) is \<^typ>\<open>real\<close>: arithmetic is exact,
    there is no rounding, no infinity and no NaN. Every statement below is a statement
    about the algorithm over exact arithmetic.
  \<^item> C++ \<^verbatim>\<open>int\<close>, \<^verbatim>\<open>int32_t\<close> and \<^verbatim>\<open>int64_t\<close> are \<^typ>\<open>int\<close> (no wrap-around is
    modelled); the loop counter \<^verbatim>\<open>depth\<close> is a \<^typ>\<open>nat\<close>.
  \<^item> A \<^verbatim>\<open>std::vector\<close> is a list, read with \<open>xs ! nat i\<close> and written with
    \<open>xs[nat i := v]\<close>. A \<^verbatim>\<open>legate::Buffer\<close> and a \<^verbatim>\<open>legate::AccessorRO\<close> are unchecked
    pointers in the source and are total functions from an index point to the value.
    Indexing outside an extent is undefined behaviour in C++; the model does not give
    it a meaning and the theorems that read an array at a node state the range.
  \<^item> A \<^verbatim>\<open>for\<close> loop is \<open>for_loop\<close>, a fold of the body over the counter values.
  \<^item> \<^verbatim>\<open>SumAllReduce\<close> is a collective: the instance hands in its buffer and gets back
    the element-wise sum over all shards. The buffers of the other shards are inputs of
    the instance and are carried by the task context.
\<close>

definition for_loop :: "int \<Rightarrow> int \<Rightarrow> (int \<Rightarrow> 's \<Rightarrow> 's) \<Rightarrow> 's \<Rightarrow> 's" where
  \<comment> \<open>\<^verbatim>\<open>for (int i = lo; i < hi; i++) body(i)\<close>\<close>
  "for_loop lo hi body s = fold body [lo..hi - 1] s"

type_synonym 'a Buffer1 = "int \<Rightarrow> 'a"
type_synonym 'a Buffer2 = "int \<times> int \<Rightarrow> 'a"
type_synonym 'a Buffer3 = "int \<times> int \<times> int \<Rightarrow> 'a"

section \<open>Declarations of \<^verbatim>\<open>build_tree.h\<close> and \<^verbatim>\<open>cpp_utils.h\<close>\<close>

text \<open>
  The two headers are not part of the sources at hand. Their declarations are modelled
  from the specification (sections 3, 4.1, 4.4.3, 4.4.5 and 6).
\<close>

type_synonym GPair = "real \<times> real"

text \<open>Modelled from the spec: \<^verbatim>\<open>GPair\<close>, an additive pair \<open>(g, h)\<close> of doubles with
  componentwise \<open>+\<close> and \<open>-\<close>; the zero element is \<open>(0, 0)\<close>.\<close>

definition GPair_zero :: GPair where
  "GPair_zero = (0, 0)"

definition GPair_add :: "GPair \<Rightarrow> GPair \<Rightarrow> GPair" where
  "GPair_add a b = (fst a + fst b, snd a + snd b)"

definition GPair_sub :: "GPair \<Rightarrow> GPair \<Rightarrow> GPair" where
  "GPair_sub a b = (fst a - fst b, snd a - snd b)"

text \<open>Modelled from the spec: the \<^verbatim>\<open>BinaryTree\<close> index algebra,
  \<open>LeftChild(n)=2n+1\<close>, \<open>RightChild(n)=2n+2\<close>, \<open>Parent(n)=(n-1)/2\<close> (C++ integer
  division, which truncates towards zero), \<open>LevelBegin(d)=2^d - 1\<close>,
  \<open>NodesInLevel(d)=2^d\<close>.\<close>

definition LeftChild :: "int \<Rightarrow> int" where
  "LeftChild n = 2 * n + 1"

definition RightChild :: "int \<Rightarrow> int" where
  "RightChild n = 2 * n + 2"

definition Parent :: "int \<Rightarrow> int" where
  "Parent n = (n - 1) sdiv 2"

definition LevelBegin :: "nat \<Rightarrow> int" where
  "LevelBegin d = 2 ^ d - 1"

definition NodesInLevel :: "nat \<Rightarrow> int" where
  "NodesInLevel d = 2 ^ d"

text \<open>Modelled from the spec: \<^verbatim>\<open>CalculateLeafValue(G,H,\<alpha>) = -G / (H + max(\<epsilon>,\<alpha>))\<close>. The
  constant \<open>\<epsilon>\<close> of the header (``a small positive constant'') is a parameter \<open>eps\<close>
  of every function that uses it.\<close>

definition CalculateLeafValue :: "real \<Rightarrow> real \<Rightarrow> real \<Rightarrow> real \<Rightarrow> real" where
  "CalculateLeafValue eps G H alpha = - G / (H + max eps alpha)"

text \<open>Modelled from the spec: \<^verbatim>\<open>SparseSplitProposals<T>\<close>, the flat array of thresholds,
  the row pointers, \<open>FeatureRange(f) = [row_pointers[f], row_pointers[f+1])\<close> and
  \<open>FindBin(x, f)\<close>, the smallest bin of the range of \<open>f\<close> whose threshold is at least
  \<open>x\<close>, or the sentinel \<open>NOT_FOUND\<close>.\<close>

record SparseSplitProposals =
  split_proposals :: "real list"
  row_pointers :: "int list"
  num_features :: int
  histogram_size :: int

definition NOT_FOUND :: int where
  "NOT_FOUND = - 1"

definition FeatureRange :: "SparseSplitProposals \<Rightarrow> int \<Rightarrow> int \<times> int" where
  "FeatureRange sp f = (row_pointers sp ! nat f, row_pointers sp ! nat (f + 1))"

definition FindBin :: "SparseSplitProposals \<Rightarrow> real \<Rightarrow> int \<Rightarrow> int" where
  "FindBin sp x f =
     (let (feature_begin, feature_end) = FeatureRange sp f
      in case List.find (\<lambda>b. x \<le> split_proposals sp ! nat b) [feature_begin..feature_end - 1] of
           None \<Rightarrow> NOT_FOUND
         | Some b \<Rightarrow> b)"

text \<open>Modelled from the spec: the sibling-subtraction policy. \<open>SelectHistogramNode\<close>
  returns the pair (directly built child, subtracted child) of a parent: the child with
  the smaller hessian at output 0 is built from the rows (the right child when the two
  are equal). \<open>ComputeHistogramBin\<close> holds iff the position is the directly built child of
  its parent, or the depth is 0.\<close>

definition SelectHistogramNode :: "int \<Rightarrow> real Buffer2 \<Rightarrow> int \<times> int" where
  "SelectHistogramNode parent node_hessians =
     (let left_child = LeftChild parent; right_child = RightChild parent
      in if node_hessians (left_child, 0) < node_hessians (right_child, 0)
         then (left_child, right_child) else (right_child, left_child))"

definition ComputeHistogramBin :: "int \<Rightarrow> nat \<Rightarrow> real Buffer2 \<Rightarrow> bool" where
  "ComputeHistogramBin node_id depth node_hessians =
     (if depth = 0 then True
      else fst (SelectHistogramNode (Parent node_id) node_hessians) = node_id)"

text \<open>Modelled from the spec: \<^verbatim>\<open>SumAllReduce(ctx, ptr, count)\<close>, the element-wise sum of
  the \<open>count\<close> doubles at \<open>ptr\<close> across all shards, broadcast to every shard. \<open>others\<close>
  are the buffers the other shards hand in, \<open>region\<close> holds for the cells that lie in
  \<open>[ptr, ptr + count)\<close>. An array of \<open>GPair\<close> is reduced as the array of its doubles.\<close>

definition SumAllReduce :: "('i \<Rightarrow> real) list \<Rightarrow> ('i \<Rightarrow> bool) \<Rightarrow> ('i \<Rightarrow> real) \<Rightarrow> ('i \<Rightarrow> real)" where
  "SumAllReduce others region buf =
     (\<lambda>i. if region i then buf i + sum_list (map (\<lambda>r. r i) others) else buf i)"

definition SumAllReduce_GPair :: "('i \<Rightarrow> GPair) list \<Rightarrow> ('i \<Rightarrow> bool) \<Rightarrow> ('i \<Rightarrow> GPair) \<Rightarrow> ('i \<Rightarrow> GPair)" where
  "SumAllReduce_GPair others region buf =
     (\<lambda>i. (SumAllReduce (map (\<lambda>r. fst \<circ> r) others) region (fst \<circ> buf) i,
           SumAllReduce (map (\<lambda>r. snd \<circ> r) others) region (snd \<circ> buf) i))"

section \<open>Stores and the task context\<close>

record Rect =
  lo :: "nat \<Rightarrow> int"
  hi :: "nat \<Rightarrow> int"

text \<open>A physical store: its shape, its read accessor, and whether its memory layout is
  dense row-major (what \<^verbatim>\<open>EXPECT_DENSE_ROW_MAJOR\<close> inspects).\<close>

record PhysicalStore =
  shape :: Rect
  accessor :: "real Buffer3"
  row_major :: bool

text \<open>The task context: the three inputs, the six scalars in their positions, and the
  buffers that the other shards contribute to each collective of the task.\<close>

record TaskContext =
  input :: "nat \<Rightarrow> PhysicalStore"
  scalar_max_depth :: int
  scalar_max_nodes :: int
  scalar_alpha :: real
  scalar_split_samples :: int
  scalar_seed :: int
  scalar_dataset_rows :: int
  others_draft_proposals :: "real Buffer2 list"
  others_base_sums :: "GPair Buffer1 list"
  others_histogram :: "nat \<Rightarrow> GPair Buffer3 list"

datatype error = Abort string

text \<open>Modelled from the spec: the precondition macros of \<^verbatim>\<open>cpp_utils.h\<close>; a violation
  aborts the task with a diagnostic.\<close>

definition EXPECT :: "bool \<Rightarrow> string \<Rightarrow> error + unit" where
  "EXPECT cond msg = (if cond then Inr () else Inl (Abort msg))"

definition EXPECT_DENSE_ROW_MAJOR :: "PhysicalStore \<Rightarrow> error + unit" where
  "EXPECT_DENSE_ROW_MAJOR X = EXPECT (row_major X) ''Expect a dense row-major store''"

definition EXPECT_AXIS_ALIGNED :: "nat \<Rightarrow> Rect \<Rightarrow> Rect \<Rightarrow> error + unit" where
  "EXPECT_AXIS_ALIGNED axis shape1 shape2 =
     EXPECT (lo shape1 axis = lo shape2 axis \<and> hi shape1 axis = hi shape2 axis)
       ''Expect input to be aligned''"

section \<open>\<^verbatim>\<open>struct Tree\<close>\<close>

record Tree =
  leaf_value :: "real Buffer2"
  feature :: "int list"
  split_value :: "real list"
  gain :: "real list"
  hessian :: "real Buffer2"
  gradient :: "real Buffer2"
  num_outputs :: int

definition Tree :: "int \<Rightarrow> int \<Rightarrow> Tree" where
  \<comment> \<open>the constructor: every node is a leaf, every cell of the three buffers is 0\<close>
  "Tree max_nodes num_outputs' =
     \<lparr> leaf_value = (\<lambda>_. 0),
       feature = replicate (nat max_nodes) (- 1),
       split_value = replicate (nat max_nodes) 0,
       gain = replicate (nat max_nodes) 0,
       hessian = (\<lambda>_. 0),
       gradient = (\<lambda>_. 0),
       num_outputs = num_outputs' \<rparr>"

definition AddSplit ::
  "int \<Rightarrow> int \<Rightarrow> real \<Rightarrow> real list \<Rightarrow> real list \<Rightarrow> real \<Rightarrow>
   real list \<Rightarrow> real list \<Rightarrow> real list \<Rightarrow> real list \<Rightarrow> Tree \<Rightarrow> Tree" where
  "AddSplit node_id feature_id split_value' left_leaf_value right_leaf_value gain'
     gradient_left gradient_right hessian_left hessian_right t =
     (let num_outputs' = int (length left_leaf_value);
          t1 = t\<lparr> feature := (feature t)[nat node_id := feature_id],
                  split_value := (split_value t)[nat node_id := split_value'],
                  gain := (gain t)[nat node_id := gain'] \<rparr>
      in for_loop 0 num_outputs'
           (\<lambda>output t.
              t\<lparr> gradient := (gradient t)
                     ((LeftChild node_id, output) := gradient_left ! nat output,
                      (RightChild node_id, output) := gradient_right ! nat output),
                 hessian := (hessian t)
                     ((LeftChild node_id, output) := hessian_left ! nat output,
                      (RightChild node_id, output) := hessian_right ! nat output),
                 leaf_value := (leaf_value t)
                     ((LeftChild node_id, output) := left_leaf_value ! nat output,
                      (RightChild node_id, output) := right_leaf_value ! nat output) \<rparr>)
           t1)"

definition IsLeaf :: "Tree \<Rightarrow> int \<Rightarrow> bool" where
  "IsLeaf t node_id = (feature t ! nat node_id = - 1)"

section \<open>\<^verbatim>\<open>WriteTreeOutput\<close>\<close>

text \<open>The five output stores. Each has the extent of the tree array it receives
  (spec, section 6), so \<^verbatim>\<open>WriteOutput\<close> copies the array as it is; the gradient is
  not written.\<close>

record TreeOutput =
  out_leaf_value :: "real Buffer2"
  out_feature :: "int list"
  out_split_value :: "real list"
  out_gain :: "real list"
  out_hessian :: "real Buffer2"

definition WriteTreeOutput :: "Tree \<Rightarrow> TreeOutput" where
  "WriteTreeOutput tree =
     \<lparr> out_leaf_value = leaf_value tree,
       out_feature = feature tree,
       out_split_value = split_value tree,
       out_gain = gain tree,
       out_hessian = hessian tree \<rparr>"

section \<open>\<^verbatim>\<open>SelectSplitSamples\<close>\<close>

text \<open>
  \<open>rng seed dataset_rows i\<close> is the \<open>i\<close>-th value that
  \<^verbatim>\<open>std::uniform_int_distribution<int64_t>(0, dataset_rows - 1)\<close> draws from
  \<^verbatim>\<open>std::default_random_engine(seed)\<close>; the generator is implementation-defined and is a
  parameter. A \<^verbatim>\<open>std::set<T>\<close> is a set, iterated in increasing order.
\<close>

definition SelectSplitSamples_draft ::
  "real Buffer3 \<Rightarrow> Rect \<Rightarrow> int \<Rightarrow> int list \<Rightarrow> real Buffer2" where
  \<comment> \<open>lines 126 to 134: the sampled rows this shard holds, zero for the others\<close>
  "SelectSplitSamples_draft X X_shape split_samples row_samples =
     (let num_features = hi X_shape 1 - lo X_shape 1 + 1
      in for_loop 0 split_samples
           (\<lambda>i draft_proposals.
              let row = row_samples ! nat i;
                  has_data = (row \<ge> lo X_shape 0 \<and> row \<le> hi X_shape 0)
              in for_loop 0 num_features
                   (\<lambda>j draft_proposals.
                      draft_proposals((j, i) := (if has_data then X (row, j, 0) else 0)))
                   draft_proposals)
           (\<lambda>_. 0))"

definition SelectSplitSamples_sort ::
  "real Buffer2 \<Rightarrow> int \<Rightarrow> int \<Rightarrow> int list \<times> real list" where
  \<comment> \<open>lines 137 to 147: the loop that sorts and deduplicates the samples of each feature\<close>
  "SelectSplitSamples_sort draft_proposals num_features' split_samples =
     for_loop 0 num_features'
       (\<lambda>j (row_pointers, split_proposals_tmp).
          let unique = set (map (\<lambda>i. draft_proposals (j, i)) [0..split_samples - 1])
          in (row_pointers[nat (j + 1) := row_pointers ! nat j + int (card unique)],
              split_proposals_tmp @ sorted_list_of_set unique))
       ((replicate (nat (num_features' + 1)) 0)[0 := 0], [])"

definition SelectSplitSamples ::
  "(int \<Rightarrow> int \<Rightarrow> nat \<Rightarrow> int) \<Rightarrow> TaskContext \<Rightarrow> real Buffer3 \<Rightarrow> Rect \<Rightarrow> int \<Rightarrow> int \<Rightarrow> int
   \<Rightarrow> SparseSplitProposals" where
  "SelectSplitSamples rng context X X_shape split_samples seed dataset_rows =
     (let row_samples = map (rng seed dataset_rows) [0..<nat split_samples];
          num_features = hi X_shape 1 - lo X_shape 1 + 1;
          draft_proposals = SelectSplitSamples_draft X X_shape split_samples row_samples;
          draft_proposals = SumAllReduce (others_draft_proposals context)
             (\<lambda>(j, i). 0 \<le> j \<and> j < num_features \<and> 0 \<le> i \<and> i < split_samples)
             draft_proposals;
          (row_pointers, split_proposals_tmp) =
             SelectSplitSamples_sort draft_proposals num_features split_samples
      in \<lparr> split_proposals = split_proposals_tmp,
           row_pointers = row_pointers,
           num_features = num_features,
           histogram_size = int (length split_proposals_tmp) \<rparr>)"

section \<open>\<^verbatim>\<open>struct TreeBuilder\<close>\<close>

record TreeBuilder =
  positions :: "int list"
  num_rows :: int
  num_features :: int
  num_outputs :: int
  max_nodes :: int
  split_proposals :: SparseSplitProposals
  histogram_buffer :: "GPair Buffer3"

definition TreeBuilder :: "int \<Rightarrow> int \<Rightarrow> int \<Rightarrow> int \<Rightarrow> SparseSplitProposals \<Rightarrow> TreeBuilder" where
  "TreeBuilder num_rows' num_features' num_outputs' max_nodes' split_proposals' =
     \<lparr> positions = replicate (nat num_rows') 0,
       num_rows = num_rows',
       num_features = num_features',
       num_outputs = num_outputs',
       max_nodes = max_nodes',
       split_proposals = split_proposals',
       histogram_buffer = (\<lambda>_. GPair_zero) \<rparr>"

subsection \<open>\<^verbatim>\<open>Scan\<close>\<close>

definition scan_node_histogram :: "TreeBuilder \<Rightarrow> int \<Rightarrow> GPair Buffer3 \<Rightarrow> GPair Buffer3" where
  "scan_node_histogram tb node_idx hb =
     for_loop 0 (TreeBuilder.num_features tb)
       (\<lambda>feature hb.
          let (feature_begin, feature_end) = FeatureRange (TreeBuilder.split_proposals tb) feature
          in for_loop 0 (TreeBuilder.num_outputs tb)
               (\<lambda>output hb.
                  snd (for_loop feature_begin feature_end
                         (\<lambda>bin_idx (sum, hb).
                            let sum = GPair_add sum (hb (node_idx, bin_idx, output))
                            in (sum, hb((node_idx, bin_idx, output) := sum)))
                         (GPair_zero, hb)))
               hb)
       hb"

definition subtract_node_histogram ::
  "TreeBuilder \<Rightarrow> int \<Rightarrow> int \<Rightarrow> int \<Rightarrow> GPair Buffer3 \<Rightarrow> GPair Buffer3" where
  "subtract_node_histogram tb subtract_node_idx scanned_node_idx parent_node_idx hb =
     for_loop 0 (TreeBuilder.num_features tb)
       (\<lambda>feature hb.
          let (feature_begin, feature_end) = FeatureRange (TreeBuilder.split_proposals tb) feature
          in for_loop 0 (TreeBuilder.num_outputs tb)
               (\<lambda>output hb.
                  for_loop feature_begin feature_end
                    (\<lambda>bin_idx hb.
                       let scanned_sum = hb (scanned_node_idx, bin_idx, output);
                           parent_sum = hb (parent_node_idx, bin_idx, output)
                       in hb((subtract_node_idx, bin_idx, output) := GPair_sub parent_sum scanned_sum))
                    hb)
               hb)
       hb"

definition Scan :: "nat \<Rightarrow> Tree \<Rightarrow> TreeBuilder \<Rightarrow> TreeBuilder" where
  "Scan depth tree tb =
     (if depth = 0 then tb\<lparr> histogram_buffer := scan_node_histogram tb 0 (histogram_buffer tb) \<rparr>
      else tb\<lparr> histogram_buffer :=
             for_loop (LevelBegin (depth - 1)) (LevelBegin (depth - 1) + NodesInLevel (depth - 1))
               (\<lambda>parent_id hb.
                  let (histogram_node_idx, subtract_node_idx) =
                        SelectHistogramNode parent_id (hessian tree);
                      hb = scan_node_histogram tb histogram_node_idx hb
                  in subtract_node_histogram tb subtract_node_idx histogram_node_idx parent_id hb)
               (histogram_buffer tb) \<rparr>)"

subsection \<open>\<^verbatim>\<open>ComputeHistogram\<close>\<close>

definition ComputeHistogram_rows ::
  "nat \<Rightarrow> Tree \<Rightarrow> real Buffer3 \<Rightarrow> Rect \<Rightarrow> real Buffer3 \<Rightarrow> real Buffer3 \<Rightarrow> TreeBuilder
   \<Rightarrow> GPair Buffer3 \<Rightarrow> GPair Buffer3" where
  \<comment> \<open>lines 185 to 200: the loop that adds the rows of the shard to the histogram\<close>
  "ComputeHistogram_rows depth tree X X_shape g h tb hb =
     for_loop (lo X_shape 0) (hi X_shape 0 + 1)
       (\<lambda>i hb.
          let index_local = i - lo X_shape 0;
              position = positions tb ! nat index_local;
              compute = ComputeHistogramBin position depth (hessian tree)
          in if position < 0 \<or> \<not> compute then hb
             else for_loop 0 (TreeBuilder.num_features tb)
                    (\<lambda>j hb.
                       let x_value = X (i, j, 0);
                           bin_idx = FindBin (TreeBuilder.split_proposals tb) x_value j
                       in if bin_idx \<noteq> NOT_FOUND
                          then for_loop 0 (TreeBuilder.num_outputs tb)
                                 (\<lambda>k hb. hb((position, bin_idx, k) :=
                                     GPair_add (hb (position, bin_idx, k)) (g (i, 0, k), h (i, 0, k))))
                                 hb
                          else hb)
                    hb)
       hb"

definition ComputeHistogram ::
  "nat \<Rightarrow> TaskContext \<Rightarrow> Tree \<Rightarrow> real Buffer3 \<Rightarrow> Rect \<Rightarrow> real Buffer3 \<Rightarrow> real Buffer3
   \<Rightarrow> TreeBuilder \<Rightarrow> TreeBuilder" where
  "ComputeHistogram depth context tree X X_shape g h tb =
     (let hb = ComputeHistogram_rows depth tree X X_shape g h tb (histogram_buffer tb);
          hb = SumAllReduce_GPair (others_histogram context depth)
                 (\<lambda>(node, bin, output).
                    LevelBegin depth \<le> node \<and> node < LevelBegin depth + NodesInLevel depth \<and>
                    0 \<le> bin \<and> bin < histogram_size (TreeBuilder.split_proposals tb) \<and>
                    0 \<le> output \<and> output < TreeBuilder.num_outputs tb)
                 hb
      in Scan depth tree (tb\<lparr> histogram_buffer := hb \<rparr>))"

subsection \<open>\<^verbatim>\<open>PerformBestSplit\<close>\<close>

definition PerformBestSplit_gain ::
  "real \<Rightarrow> real \<Rightarrow> Tree \<Rightarrow> TreeBuilder \<Rightarrow> int \<Rightarrow> int \<Rightarrow> real" where
  \<comment> \<open>lines 261 to 271: the gain of one candidate, accumulated over the outputs\<close>
  "PerformBestSplit_gain eps alpha tree tb node_id bin_idx =
     for_loop 0 (TreeBuilder.num_outputs tb)
       (\<lambda>output gain.
          let (G_L, H_L) = histogram_buffer tb (node_id, bin_idx, output);
              G = gradient tree (node_id, output);
              H = hessian tree (node_id, output);
              G_R = G - G_L;
              H_R = H - H_L;
              reg = max eps alpha
          in gain + 0.5 * ((G_L * G_L) / (H_L + reg) + (G_R * G_R) / (H_R + reg) - (G * G) / (H + reg)))
       0"

definition PerformBestSplit_search ::
  "real \<Rightarrow> real \<Rightarrow> Tree \<Rightarrow> TreeBuilder \<Rightarrow> int \<Rightarrow> real \<times> int \<times> int" where
  \<comment> \<open>lines 255 to 278: the search for (best_gain, best_feature, best_bin) of one node\<close>
  "PerformBestSplit_search eps alpha tree tb node_id =
     for_loop 0 (TreeBuilder.num_features tb)
       (\<lambda>feature best.
          let (feature_begin, feature_end) = FeatureRange (TreeBuilder.split_proposals tb) feature
          in for_loop feature_begin feature_end
               (\<lambda>bin_idx (best_gain, best_feature, best_bin).
                  let gain = PerformBestSplit_gain eps alpha tree tb node_id bin_idx
                  in if gain > best_gain then (gain, feature, bin_idx)
                     else (best_gain, best_feature, best_bin))
               best)
       (0, - 1, - 1)"

definition PerformBestSplit_node ::
  "real \<Rightarrow> real \<Rightarrow> TreeBuilder \<Rightarrow> int \<Rightarrow> Tree \<Rightarrow> Tree" where
  \<comment> \<open>lines 255 to 310: the body of the loop over the nodes of the level\<close>
  "PerformBestSplit_node eps alpha tb node_id tree =
     (let (best_gain, best_feature, best_bin) = PerformBestSplit_search eps alpha tree tb node_id
      in if best_gain > eps
         then
           let outputs = [0..TreeBuilder.num_outputs tb - 1];
               G_L = (\<lambda>output. fst (histogram_buffer tb (node_id, best_bin, output)));
               H_L = (\<lambda>output. snd (histogram_buffer tb (node_id, best_bin, output)));
               G_R = (\<lambda>output. gradient tree (node_id, output) - G_L output);
               H_R = (\<lambda>output. hessian tree (node_id, output) - H_L output);
               left_leaf = map (\<lambda>output. CalculateLeafValue eps (G_L output) (H_L output) alpha) outputs;
               right_leaf = map (\<lambda>output. CalculateLeafValue eps (G_R output) (H_R output) alpha) outputs;
               gradient_left = map G_L outputs;
               gradient_right = map G_R outputs;
               hessian_left = map H_L outputs;
               hessian_right = map H_R outputs
           in if hessian_left ! 0 \<le> 0 \<or> hessian_right ! 0 \<le> 0 then tree
              else AddSplit node_id best_feature
                     (SparseSplitProposals.split_proposals (TreeBuilder.split_proposals tb) ! nat best_bin)
                     left_leaf right_leaf best_gain
                     gradient_left gradient_right hessian_left hessian_right tree
         else tree)"

definition PerformBestSplit :: "real \<Rightarrow> nat \<Rightarrow> real \<Rightarrow> TreeBuilder \<Rightarrow> Tree \<Rightarrow> Tree" where
  "PerformBestSplit eps depth alpha tb tree =
     for_loop (LevelBegin depth) (LevelBegin (depth + 1)) (PerformBestSplit_node eps alpha tb) tree"

subsection \<open>\<^verbatim>\<open>UpdatePositions\<close>\<close>

definition UpdatePositions :: "nat \<Rightarrow> Tree \<Rightarrow> real Buffer3 \<Rightarrow> Rect \<Rightarrow> TreeBuilder \<Rightarrow> TreeBuilder" where
  "UpdatePositions depth tree X X_shape tb =
     (if depth = 0 then tb
      else tb\<lparr> positions :=
             for_loop (lo X_shape 0) (hi X_shape 0 + 1)
               (\<lambda>i positions.
                  let index_local = i - lo X_shape 0;
                      pos = positions ! nat index_local
                  in if pos < 0 \<or> IsLeaf tree pos then positions[nat index_local := - 1]
                     else
                       let x = X (i, feature tree ! nat pos, 0);
                           left = (x \<le> split_value tree ! nat pos)
                       in positions[nat index_local :=
                                      (if left then LeftChild pos else RightChild pos)])
               (positions tb) \<rparr>)"

subsection \<open>\<^verbatim>\<open>InitialiseRoot\<close>\<close>

definition InitialiseRoot_sums :: "int \<Rightarrow> real Buffer3 \<Rightarrow> real Buffer3 \<Rightarrow> Rect \<Rightarrow> GPair list" where
  \<comment> \<open>lines 341 to 346: the sums of the rows of the shard, one pair per output\<close>
  "InitialiseRoot_sums num_outputs' g_accessor h_accessor g_shape =
     for_loop (lo g_shape 0) (hi g_shape 0 + 1)
       (\<lambda>i base_sums.
          for_loop 0 num_outputs'
            (\<lambda>j base_sums.
               base_sums[nat j := GPair_add (base_sums ! nat j) (g_accessor (i, 0, j), h_accessor (i, 0, j))])
            base_sums)
       (replicate (nat num_outputs') GPair_zero)"

definition InitialiseRoot ::
  "real \<Rightarrow> TaskContext \<Rightarrow> real Buffer3 \<Rightarrow> real Buffer3 \<Rightarrow> Rect \<Rightarrow> real \<Rightarrow> TreeBuilder \<Rightarrow> Tree \<Rightarrow> Tree" where
  "InitialiseRoot eps context g_accessor h_accessor g_shape alpha tb tree =
     (let base_sums = InitialiseRoot_sums (TreeBuilder.num_outputs tb) g_accessor h_accessor g_shape;
          base_sums = SumAllReduce_GPair (others_base_sums context)
                        (\<lambda>j. 0 \<le> j \<and> j < TreeBuilder.num_outputs tb)
                        (\<lambda>j. base_sums ! nat j)
      in for_loop 0 (TreeBuilder.num_outputs tb)
           (\<lambda>i tree.
              let (G, H) = base_sums i
              in tree\<lparr> leaf_value := (leaf_value tree)((0, i) := CalculateLeafValue eps G H alpha),
                       gradient := (gradient tree)((0, i) := G),
                       hessian := (hessian tree)((0, i) := H) \<rparr>)
           tree)"

section \<open>\<^verbatim>\<open>build_tree_fn\<close>\<close>

definition build_tree_level ::
  "real \<Rightarrow> TaskContext \<Rightarrow> int \<Rightarrow> Tree \<times> TreeBuilder \<Rightarrow> Tree \<times> TreeBuilder" where
  \<comment> \<open>lines 398 to 402: the body of the loop over the depths\<close>
  "build_tree_level eps context depth st =
     (let (tree, tree_builder) = st;
          X = input context 0; g = input context 1; h = input context 2;
          tree_builder = UpdatePositions (nat depth) tree (accessor X) (shape X) tree_builder;
          tree_builder = ComputeHistogram (nat depth) context tree (accessor X) (shape X)
                           (accessor g) (accessor h) tree_builder;
          tree = PerformBestSplit eps (nat depth) (scalar_alpha context) tree_builder tree
      in (tree, tree_builder))"

definition build_tree_start ::
  "real \<Rightarrow> (int \<Rightarrow> int \<Rightarrow> nat \<Rightarrow> int) \<Rightarrow> TaskContext \<Rightarrow> Tree \<times> TreeBuilder" where
  \<comment> \<open>lines 373 to 396 without the checks: the tree and the builder when the loop starts\<close>
  "build_tree_start eps rng context =
     (let X = input context 0; g = input context 1; h = input context 2;
          X_shape = shape X; g_shape = shape g;
          num_features = hi X_shape 1 - lo X_shape 1 + 1;
          num_rows = max (hi X_shape 0 - lo X_shape 0 + 1) 0;
          num_outputs = hi g_shape 2 - lo g_shape 2 + 1;
          max_nodes = scalar_max_nodes context;
          alpha = scalar_alpha context;
          tree = Tree max_nodes num_outputs;
          split_proposals = SelectSplitSamples rng context (accessor X) X_shape
                              (scalar_split_samples context) (scalar_seed context)
                              (scalar_dataset_rows context);
          tree_builder = TreeBuilder num_rows num_features num_outputs max_nodes split_proposals;
          tree = InitialiseRoot eps context (accessor g) (accessor h) g_shape alpha tree_builder tree
      in (tree, tree_builder))"

definition build_tree_grow ::
  "real \<Rightarrow> (int \<Rightarrow> int \<Rightarrow> nat \<Rightarrow> int) \<Rightarrow> TaskContext \<Rightarrow> Tree \<times> TreeBuilder" where
  \<comment> \<open>lines 389 to 403: the tree and the builder when the loop over the depths is over\<close>
  "build_tree_grow eps rng context =
     for_loop 0 (scalar_max_depth context) (build_tree_level eps context)
       (build_tree_start eps rng context)"

definition build_tree_fn ::
  "real \<Rightarrow> (int \<Rightarrow> int \<Rightarrow> nat \<Rightarrow> int) \<Rightarrow> TaskContext \<Rightarrow> error + TreeOutput" where
  "build_tree_fn eps rng context =
     (let X = input context 0; g = input context 1; h = input context 2;
          X_shape = shape X; g_shape = shape g; h_shape = shape h
      in case EXPECT_DENSE_ROW_MAJOR X of Inl e \<Rightarrow> Inl e | Inr _ \<Rightarrow>
         case EXPECT_AXIS_ALIGNED 0 X_shape g_shape of Inl e \<Rightarrow> Inl e | Inr _ \<Rightarrow>
         case EXPECT_AXIS_ALIGNED 0 g_shape h_shape of Inl e \<Rightarrow> Inl e | Inr _ \<Rightarrow>
         case EXPECT_AXIS_ALIGNED 1 g_shape h_shape of Inl e \<Rightarrow> Inl e | Inr _ \<Rightarrow>
         case EXPECT (lo g_shape 2 = 0) ''Expect all outputs to be present'' of Inl e \<Rightarrow> Inl e | Inr _ \<Rightarrow>
         Inr (WriteTreeOutput (fst (build_tree_grow eps rng context))))"

section \<open>Notions of the specification\<close>

text \<open>The definitions of this section follow the words of the specification; the
  theorems compare them with the functions of the source.\<close>

text \<open>The gain of the candidate bin \<open>bin\<close> at node \<open>n\<close> as section 4.4.5 writes it: the sum
  over the outputs of \<open>0.5 * (G_L\<^sup>2/(H_L+r) + G_R\<^sup>2/(H_R+r) - G\<^sup>2/(H+r))\<close>.\<close>

definition gain_formula :: "real \<Rightarrow> real \<Rightarrow> Tree \<Rightarrow> TreeBuilder \<Rightarrow> int \<Rightarrow> int \<Rightarrow> real" where
  "gain_formula eps alpha tree tb n bin =
     (\<Sum>output \<in> {0..<TreeBuilder.num_outputs tb}.
        let G_L = fst (histogram_buffer tb (n, bin, output));
            H_L = snd (histogram_buffer tb (n, bin, output));
            G = gradient tree (n, output);
            H = hessian tree (n, output);
            G_R = G - G_L;
            H_R = H - H_L;
            r = max eps alpha
        in 0.5 * (G_L\<^sup>2 / (H_L + r) + G_R\<^sup>2 / (H_R + r) - G\<^sup>2 / (H + r)))"

text \<open>The candidates of the search: a feature of the builder and a bin of its range.\<close>

definition candidate :: "TreeBuilder \<Rightarrow> int \<Rightarrow> int \<Rightarrow> bool" where
  "candidate tb f bin =
     (0 \<le> f \<and> f < TreeBuilder.num_features tb \<and>
      fst (FeatureRange (TreeBuilder.split_proposals tb) f) \<le> bin \<and>
      bin < snd (FeatureRange (TreeBuilder.split_proposals tb) f))"

text \<open>\<open>first_best gn S best\<close>: among the candidates \<open>S\<close> with gains \<open>gn\<close>, \<open>best\<close> is the initial
  triple \<open>(0, -1, -1)\<close> when no gain is positive, and otherwise the candidate of maximal gain
  that comes first in the order of features and then of bins.\<close>

definition first_best :: "(int \<Rightarrow> real) \<Rightarrow> (int \<Rightarrow> int \<Rightarrow> bool) \<Rightarrow> real \<times> int \<times> int \<Rightarrow> bool" where
  "first_best gn S best =
     (case best of (bg, bf, bb) \<Rightarrow>
        (bf = - 1 \<and> bb = - 1 \<and> bg = 0 \<and> (\<forall>f b. S f b \<longrightarrow> gn b \<le> 0)) \<or>
        (S bf bb \<and> gn bb = bg \<and> 0 < bg \<and>
         (\<forall>f b. S f b \<longrightarrow> gn b \<le> bg \<and> (gn b = bg \<longrightarrow> bf < f \<or> (bf = f \<and> bb \<le> b)))))"

text \<open>The position of a row after \<^verbatim>\<open>UpdatePositions\<close> as section 4.4.2 writes it.\<close>

definition next_position :: "Tree \<Rightarrow> real Buffer3 \<Rightarrow> int \<Rightarrow> int \<Rightarrow> int" where
  "next_position tree X row p =
     (if p < 0 \<or> feature tree ! nat p = - 1 then - 1
      else if X (row, feature tree ! nat p, 0) \<le> split_value tree ! nat p then 2 * p + 1
      else 2 * p + 2)"

text \<open>The positions of level \<open>d\<close>: \<open>-1\<close>, or a node index in \<open>[2^d - 1, 2^(d+1) - 1)\<close>.\<close>

definition in_level :: "nat \<Rightarrow> int \<Rightarrow> bool" where
  "in_level d p = (p = - 1 \<or> (2 ^ d - 1 \<le> p \<and> p < 2 ^ (d + 1) - 1))"

text \<open>The sum of the column \<open>output\<close> of a gradient or hessian store over the rows of a
  shape: the contribution of one shard to the global sum.\<close>

definition rows_sum :: "real Buffer3 \<Rightarrow> Rect \<Rightarrow> int \<Rightarrow> real" where
  "rows_sum a r output = (\<Sum>i = lo r 0..hi r 0. a (i, 0, output))"

text \<open>The preconditions on the geometry of the stores that section 4.5 lists: \<open>X\<close> is
  dense row-major, \<open>g\<close> is aligned with \<open>X\<close> and \<open>h\<close> with \<open>g\<close> on the rows, \<open>g\<close> and \<open>h\<close>
  are aligned on axis 1, and the outputs of \<open>g\<close> start at 0.\<close>

definition geometry_ok :: "TaskContext \<Rightarrow> bool" where
  "geometry_ok context =
     (let X = input context 0; g = input context 1; h = input context 2
      in row_major X \<and>
         lo (shape X) 0 = lo (shape g) 0 \<and> hi (shape X) 0 = hi (shape g) 0 \<and>
         lo (shape g) 0 = lo (shape h) 0 \<and> hi (shape g) 0 = hi (shape h) 0 \<and>
         lo (shape g) 1 = lo (shape h) 1 \<and> hi (shape g) 1 = hi (shape h) 1 \<and>
         lo (shape g) 2 = 0)"

text \<open>Invariants 2 and 5 of section 8: every internal node has a gain above \<open>\<epsilon>\<close> and two
  children with a positive hessian at output 0.\<close>

definition split_invariant :: "real \<Rightarrow> Tree \<Rightarrow> bool" where
  "split_invariant eps t =
     (length (gain t) = length (feature t) \<and>
      (\<forall>n. 0 \<le> n \<and> n < int (length (feature t)) \<and> feature t ! nat n \<noteq> - 1 \<longrightarrow>
         gain t ! nat n > eps \<and> hessian t (LeftChild n, 0) > 0 \<and> hessian t (RightChild n, 0) > 0))"

section \<open>Histograms of the rows of a node\<close>

text \<open>The sum of a family of pairs over a set, componentwise.\<close>

definition GPair_sum :: "('i \<Rightarrow> GPair) \<Rightarrow> 'i set \<Rightarrow> GPair" where
  "GPair_sum f S = (\<Sum>x\<in>S. fst (f x), \<Sum>x\<in>S. snd (f x))"



text \<open>A bin lies in the range of one of the first \<open>F\<close> features.\<close>

definition covered :: "TreeBuilder \<Rightarrow> int \<Rightarrow> int \<Rightarrow> bool" where
  "covered tb F bin =
     (\<exists>f. 0 \<le> f \<and> f < F \<and>
          fst (FeatureRange (TreeBuilder.split_proposals tb) f) \<le> bin \<and>
          bin < snd (FeatureRange (TreeBuilder.split_proposals tb) f))"




text \<open>The sum of a list of pairs, componentwise: what the collective computes for one cell.\<close>

definition GPair_sum_list :: "GPair list \<Rightarrow> GPair" where
  "GPair_sum_list xs = (sum_list (map fst xs), sum_list (map snd xs))"









section \<open>Concrete inputs\<close>

text \<open>A builder whose two features have one bin each, both with the left sums \<open>(1, 0)\<close>:
  the two candidates have the same gain and a left hessian of 0.\<close>

definition degenerate_builder :: TreeBuilder where
  "degenerate_builder =
     \<lparr> positions = [], num_rows = 0, num_features = 2, num_outputs = 1, max_nodes = 3,
       split_proposals = \<lparr> SparseSplitProposals.split_proposals = [0, 0], row_pointers = [0, 1, 2],
                           SparseSplitProposals.num_features = 2, histogram_size = 2 \<rparr>,
       histogram_buffer = (\<lambda>_. (1, 0)) \<rparr>"

text \<open>The scenario ``single perfect split'' of section 8: four rows, one feature with the
  values 0, 0, 1, 1, gradients -1, -1, 1, 1 and hessians 1.\<close>

definition scenario_X :: "real Buffer3" where
  "scenario_X = (\<lambda>(i, j, k). if 2 \<le> i then 1 else 0)"

definition scenario_g :: "real Buffer3" where
  "scenario_g = (\<lambda>(i, j, k). if 2 \<le> i then 1 else - 1)"

definition scenario_h :: "real Buffer3" where
  "scenario_h = (\<lambda>_. 1)"

definition scenario_shape :: Rect where
  "scenario_shape = \<lparr> lo = (\<lambda>_. 0), hi = (\<lambda>axis. if axis = 0 then 3 else 0) \<rparr>"

definition scenario_proposals :: SparseSplitProposals where
  "scenario_proposals =
     \<lparr> SparseSplitProposals.split_proposals = [0, 1], row_pointers = [0, 2],
       SparseSplitProposals.num_features = 1, histogram_size = 2 \<rparr>"

definition scenario_tree :: Tree where
  "scenario_tree = AddSplit 0 0 0 [1] [- 1] 2 [- 2] [2] [2] [2] (Tree 3 1)"

definition scenario_rng :: "int \<Rightarrow> int \<Rightarrow> nat \<Rightarrow> int" where
  "scenario_rng seed' dataset_rows' i = int i"

definition scenario_context :: "int \<Rightarrow> int \<Rightarrow> TaskContext" where
  "scenario_context max_depth' max_nodes' =
     \<lparr> input = (\<lambda>n. \<lparr> shape = scenario_shape,
                       accessor = (if n = 0 then scenario_X else if n = 1 then scenario_g else scenario_h),
                       row_major = True \<rparr>),
       scalar_max_depth = max_depth',
       scalar_max_nodes = max_nodes',
       scalar_alpha = 0,
       scalar_split_samples = 4,
       scalar_seed = 0,
       scalar_dataset_rows = 4,
       others_draft_proposals = [],
       others_base_sums = [],
       others_histogram = (\<lambda>_. []) \<rparr>"



section \<open>Loops\<close>

lemma for_loop_empty: "b \<le> a \<Longrightarrow> for_loop a b body s = s"
  by (simp add: for_loop_def)

lemma for_loop_last: "a < b \<Longrightarrow> for_loop a b body s = body (b - 1) (for_loop a (b - 1) body s)"
  by (simp add: for_loop_def upto_rec2)


lemma for_loop_induct:
  assumes "a \<le> b" and "P a s"
    and "\<And>i s. a \<le> i \<Longrightarrow> i < b \<Longrightarrow> P i s \<Longrightarrow> P (i + 1) (body i s)"
  shows "P b (for_loop a b body s)"
proof -
  have "a + int n \<le> b \<Longrightarrow> P (a + int n) (for_loop a (a + int n) body s)" for n
  proof (induction n)
    case 0
    then show ?case using assms(2) by (simp add: for_loop_empty)
  next
    case (Suc n)
    then have "P (a + int n) (for_loop a (a + int n) body s)" by simp
    then have "P (a + int n + 1) (body (a + int n) (for_loop a (a + int n) body s))"
      using Suc.prems by (intro assms(3)) auto
    moreover have "for_loop a (a + int (Suc n)) body s
        = body (a + int n) (for_loop a (a + int n) body s)"
      using for_loop_last [of a "a + int (Suc n)" body s] by (simp add: algebra_simps)
    ultimately show ?case by (simp add: algebra_simps)
  qed
  from this [of "nat (b - a)"] assms(1) show ?thesis by simp
qed

lemma for_loop_invariant:
  assumes "P s" and "\<And>i s. a \<le> i \<Longrightarrow> i < b \<Longrightarrow> P s \<Longrightarrow> P (body i s)"
  shows "P (for_loop a b body s)"
proof (cases "a \<le> b")
  case True
  then show ?thesis using for_loop_induct [of a b "\<lambda>_. P" s body] assms by blast
next
  case False
  then show ?thesis using assms(1) by (simp add: for_loop_empty)
qed

lemma for_loop_split:
  assumes "a \<le> mid" and "mid \<le> b"
  shows "for_loop a b body s = for_loop mid b body (for_loop a mid body s)"
proof -
  have "[a..b - 1] = [a..mid - 1] @ [mid..b - 1]"
  proof (cases "mid = b")
    case True
    then show ?thesis by simp
  next
    case False
    then show ?thesis using assms upto_split1 [of a mid "b - 1"] by simp
  qed
  then show ?thesis by (simp add: for_loop_def)
qed

lemma int_interval_Suc: "(a::int) \<le> i \<Longrightarrow> {a..<i + 1} = insert i {a..<i}"
  by auto

lemma for_loop_sum:
  "for_loop a b (\<lambda>i (acc::real). acc + t i) z = z + sum t {a..<b}"
proof (cases "a \<le> b")
  case True
  show ?thesis
    by (rule for_loop_induct [of a b "\<lambda>i r. r = z + sum t {a..<i}", OF True])
       (simp_all add: int_interval_Suc)
next
  case False
  then show ?thesis by (simp add: for_loop_empty)
qed

section \<open>\<^verbatim>\<open>PerformBestSplit\<close>: gain, search and rejection\<close>

text \<open>C6. For every node \<open>n\<close> and every bin, the gain that \<^verbatim>\<open>PerformBestSplit\<close> computes for the
  candidate is the sum over the outputs \<open>o\<close> of
  \<open>0.5 * (G_L\<^sup>2/(H_L+r) + G_R\<^sup>2/(H_R+r) - G\<^sup>2/(H+r))\<close>, where \<open>(G_L, H_L)\<close> is the histogram
  entry at \<open>(n, bin, o)\<close>, \<open>(G, H)\<close> are the gradient and the hessian of the tree at \<open>(n, o)\<close>,
  \<open>G_R = G - G_L\<close>, \<open>H_R = H - H_L\<close> and \<open>r = max \<epsilon> \<alpha>\<close>.\<close>

theorem PerformBestSplit_gain_formula:
  "PerformBestSplit_gain eps alpha tree tb n bin = gain_formula eps alpha tree tb n bin"
  unfolding PerformBestSplit_gain_def gain_formula_def
  by (simp add: for_loop_sum Let_def case_prod_beta power2_eq_square)

lemma upto_01: "[0..1] = [0, 1]"
  by (simp add: upto_rec1)

lemma degenerate_search:
  "PerformBestSplit_search (1 / 1000) 0 (Tree 3 1) degenerate_builder 0 = (1000, 0, 0)"
  by (simp add: PerformBestSplit_search_def PerformBestSplit_gain_def degenerate_builder_def
      Tree_def FeatureRange_def for_loop_def upto_01)

text \<open>C4. When the search of a node ends with \<open>best_gain \<le> \<epsilon>\<close>, or the best candidate
  has a left hessian or a right hessian that is not positive at output 0, no split is
  applied: the processing of the node returns the tree as it was, so the node stays a
  leaf and no field of the tree changes.\<close>

theorem PerformBestSplit_node_rejected:
  assumes "PerformBestSplit_search eps alpha tree tb node_id = (best_gain, best_feature, best_bin)"
    and "best_gain \<le> eps \<or>
         (0 < TreeBuilder.num_outputs tb \<and>
          (snd (histogram_buffer tb (node_id, best_bin, 0)) \<le> 0 \<or>
           hessian tree (node_id, 0) - snd (histogram_buffer tb (node_id, best_bin, 0)) \<le> 0))"
  shows "PerformBestSplit_node eps alpha tb node_id tree = tree"
proof (cases "best_gain \<le> eps")
  case True
  then show ?thesis using assms(1) by (simp add: PerformBestSplit_node_def)
next
  case False
  with assms(2) have pos: "0 < TreeBuilder.num_outputs tb"
    and bad: "snd (histogram_buffer tb (node_id, best_bin, 0)) \<le> 0 \<or>
           hessian tree (node_id, 0) - snd (histogram_buffer tb (node_id, best_bin, 0)) \<le> 0"
    by auto
  from pos have "[0..TreeBuilder.num_outputs tb - 1] = 0 # [1..TreeBuilder.num_outputs tb - 1]"
    by (simp add: upto_rec1)
  then show ?thesis using assms(1) bad
    by (simp add: PerformBestSplit_node_def Let_def)
qed

theorem PerformBestSplit_node_rejected_witness:
  "PerformBestSplit_search (1 / 1000) 0 (Tree 3 1) degenerate_builder 0 = (1000, 0, 0) \<and>
   0 < TreeBuilder.num_outputs degenerate_builder \<and>
   snd (histogram_buffer degenerate_builder (0, 0, 0)) \<le> 0 \<and>
   PerformBestSplit_node (1 / 1000) 0 degenerate_builder 0 (Tree 3 1) = Tree 3 1"
proof -
  have h: "(1000::real) \<le> 1 / 1000 \<or>
         (0 < TreeBuilder.num_outputs degenerate_builder \<and>
          (snd (histogram_buffer degenerate_builder (0, 0, 0)) \<le> 0 \<or>
           hessian (Tree 3 1) (0, 0) - snd (histogram_buffer degenerate_builder (0, 0, 0)) \<le> 0))"
    by (simp add: degenerate_builder_def)
  show ?thesis
    using PerformBestSplit_node_rejected [OF degenerate_search h] degenerate_search
    by (simp add: degenerate_builder_def)
qed

section \<open>The search visits the candidates in order\<close>

lemma first_best_step:
  assumes "first_best gn S best"
    and "\<And>f' b'. S f' b' \<Longrightarrow> f' < f \<or> (f' = f \<and> b' < b)"
    and "\<And>f' b'. S' f' b' \<longleftrightarrow> S f' b' \<or> (f' = f \<and> b' = b)"
  shows "first_best gn S'
           (case best of (best_gain, best_feature, best_bin) \<Rightarrow>
              let g = gn b in if g > best_gain then (g, f, b) else (best_gain, best_feature, best_bin))"
proof -
  obtain bg bf bb where best: "best = (bg, bf, bb)" by (cases best) auto
  show ?thesis
  proof (cases "gn b > bg")
    case True
    from assms(1) have le: "\<And>f' b'. S f' b' \<Longrightarrow> gn b' \<le> bg"
      unfolding first_best_def best by auto
    have "\<And>f' b'. S' f' b' \<Longrightarrow> gn b' \<le> gn b \<and> (gn b' = gn b \<longrightarrow> f < f' \<or> (f = f' \<and> b \<le> b'))"
      using le True assms(3) by fastforce
    moreover have "0 < gn b" using assms(1) True unfolding first_best_def best by auto
    moreover have "S' f b" using assms(3) by simp
    ultimately show ?thesis using True unfolding first_best_def best by (simp add: Let_def)
  next
    case False
    from assms(1) consider
      (none) "bf = - 1" "bb = - 1" "bg = 0" "\<And>f b. S f b \<Longrightarrow> gn b \<le> 0"
      | (some) "S bf bb" "gn bb = bg" "0 < bg"
          "\<And>f b. S f b \<Longrightarrow> gn b \<le> bg \<and> (gn b = bg \<longrightarrow> bf < f \<or> (bf = f \<and> bb \<le> b))"
      unfolding first_best_def best by auto
    then show ?thesis
    proof cases
      case none
      then have "\<And>f' b'. S' f' b' \<Longrightarrow> gn b' \<le> 0" using False assms(3) by auto
      then show ?thesis using none False unfolding first_best_def best by (simp add: Let_def)
    next
      case some
      have "bf < f \<or> (bf = f \<and> bb < b)" using assms(2) some(1) by blast
      then have "\<And>f' b'. S' f' b' \<Longrightarrow>
          gn b' \<le> bg \<and> (gn b' = bg \<longrightarrow> bf < f' \<or> (bf = f' \<and> bb \<le> b'))"
        using some(4) False assms(3) by fastforce
      moreover have "S' bf bb" using some(1) assms(3) by simp
      ultimately show ?thesis using some(2,3) False unfolding first_best_def best
        by (simp add: Let_def)
    qed
  qed
qed

lemma search_first_best:
  "first_best (PerformBestSplit_gain eps alpha tree tb node_id) (candidate tb)
     (PerformBestSplit_search eps alpha tree tb node_id)"
proof -
  define gn where "gn = PerformBestSplit_gain eps alpha tree tb node_id"
  define nf where "nf = TreeBuilder.num_features tb"
  define S where "S = (\<lambda>F B f b. candidate tb f b \<and> (f < F \<or> (f = F \<and> b < B)))"
  define body where "body = (\<lambda>feature best.
          let (feature_begin, feature_end) = FeatureRange (TreeBuilder.split_proposals tb) feature
          in for_loop feature_begin feature_end
               (\<lambda>bin_idx (best_gain, best_feature, best_bin).
                  let gain = PerformBestSplit_gain eps alpha tree tb node_id bin_idx
                  in if gain > best_gain then (gain, feature, bin_idx)
                     else (best_gain, best_feature, best_bin))
               best)"
  have search: "PerformBestSplit_search eps alpha tree tb node_id = for_loop 0 nf body (0, - 1, - 1)"
    by (simp add: PerformBestSplit_search_def body_def nf_def)
  have inner: "first_best gn (\<lambda>f b. candidate tb f b \<and> f < F + 1) (body F best)"
    if F: "0 \<le> F" "F < nf" and best: "first_best gn (\<lambda>f b. candidate tb f b \<and> f < F) best" for F best
  proof -
    obtain fb fe where fr: "FeatureRange (TreeBuilder.split_proposals tb) F = (fb, fe)"
      by (cases "FeatureRange (TreeBuilder.split_proposals tb) F") auto
    have S0: "S F fb = (\<lambda>f b. candidate tb f b \<and> f < F)"
      by (auto simp: S_def candidate_def fr fun_eq_iff)
    show ?thesis
    proof (cases "fb \<le> fe")
      case True
      have "first_best gn (S F fe) (for_loop fb fe
               (\<lambda>bin_idx (best_gain, best_feature, best_bin).
                  let gain = gn bin_idx
                  in if gain > best_gain then (gain, F, bin_idx)
                     else (best_gain, best_feature, best_bin)) best)"
      proof (rule for_loop_induct [OF True])
        show "first_best gn (S F fb) best" using best S0 by simp
      next
        fix i s
        assume i: "fb \<le> i" "i < fe" and s: "first_best gn (S F i) s"
        show "first_best gn (S F (i + 1))
           (case s of (best_gain, best_feature, best_bin) \<Rightarrow>
              let gain = gn i in if best_gain < gain then (gain, F, i) else (best_gain, best_feature, best_bin))"
        proof (rule first_best_step [OF s])
          show "\<And>f' b'. S F i f' b' \<Longrightarrow> f' < F \<or> (f' = F \<and> b' < i)" by (auto simp: S_def)
          show "\<And>f' b'. S F (i + 1) f' b' = (S F i f' b' \<or> (f' = F \<and> b' = i))"
            using i F by (auto simp: S_def candidate_def fr nf_def)
        qed
      qed
      moreover have "S F fe = (\<lambda>f b. candidate tb f b \<and> f < F + 1)"
        by (auto simp: S_def candidate_def fr fun_eq_iff)
      ultimately show ?thesis by (simp add: body_def fr gn_def)
    next
      case False
      then have "body F best = best" by (simp add: body_def fr for_loop_empty)
      moreover have "\<not> candidate tb F b" for b
        using False by (auto simp: candidate_def fr)
      then have "(candidate tb f b \<and> f < F + 1) = (candidate tb f b \<and> f < F)" for f b
        by (cases "f = F") auto
      then have "(\<lambda>f b. candidate tb f b \<and> f < F + 1) = (\<lambda>f b. candidate tb f b \<and> f < F)"
        by simp
      ultimately show ?thesis using best by simp
    qed
  qed
  show ?thesis
  proof (cases "0 \<le> nf")
    case True
    have "first_best gn (\<lambda>f b. candidate tb f b \<and> f < nf) (for_loop 0 nf body (0, - 1, - 1))"
    proof (rule for_loop_induct [OF True])
      show "first_best gn (\<lambda>f b. candidate tb f b \<and> f < 0) (0, - 1, - 1)"
        by (auto simp: first_best_def candidate_def)
    next
      fix i s
      assume "0 \<le> i" "i < nf" "first_best gn (\<lambda>f b. candidate tb f b \<and> f < i) s"
      then show "first_best gn (\<lambda>f b. candidate tb f b \<and> f < i + 1) (body i s)"
        by (rule inner)
    qed
    moreover have "(\<lambda>f b. candidate tb f b \<and> f < nf) = candidate tb"
      by (auto simp: candidate_def nf_def fun_eq_iff)
    ultimately show ?thesis by (simp add: search gn_def)
  next
    case False
    then have "for_loop 0 nf body (0, - 1, - 1) = (0, - 1, - 1)" by (simp add: for_loop_empty)
    moreover have "\<And>f b. \<not> candidate tb f b" using False by (auto simp: candidate_def nf_def)
    ultimately show ?thesis by (simp add: search first_best_def)
  qed
qed

text \<open>C5. The search of \<^verbatim>\<open>PerformBestSplit\<close> starts from \<open>best_gain = 0\<close>, replaces the best
  candidate only by one of strictly greater gain, and visits the features in increasing
  order and the bins of a feature in increasing order. So either no candidate has a
  positive gain and the result is the initial triple, or the result is a candidate of
  maximal, positive gain, and every candidate of the same gain has a greater feature
  index, or the same feature and a bin that is not smaller.\<close>

theorem PerformBestSplit_search_tie_break:
  assumes "PerformBestSplit_search eps alpha tree tb node_id = (best_gain, best_feature, best_bin)"
  shows "(best_feature = - 1 \<and> best_bin = - 1 \<and> best_gain = 0 \<and>
          (\<forall>f bin. candidate tb f bin \<longrightarrow> PerformBestSplit_gain eps alpha tree tb node_id bin \<le> 0))
       \<or> (candidate tb best_feature best_bin \<and>
          PerformBestSplit_gain eps alpha tree tb node_id best_bin = best_gain \<and> 0 < best_gain \<and>
          (\<forall>f bin. candidate tb f bin \<longrightarrow>
             PerformBestSplit_gain eps alpha tree tb node_id bin \<le> best_gain \<and>
             (PerformBestSplit_gain eps alpha tree tb node_id bin = best_gain \<longrightarrow>
                best_feature < f \<or> (best_feature = f \<and> best_bin \<le> bin))))"
  using search_first_best [of eps alpha tree tb node_id] assms
  by (simp add: first_best_def)

theorem PerformBestSplit_search_tie_break_witness:
  "PerformBestSplit_search (1 / 1000) 0 (Tree 3 1) degenerate_builder 0 = (1000, 0, 0) \<and>
   candidate degenerate_builder 0 0 \<and> candidate degenerate_builder 1 1 \<and>
   PerformBestSplit_gain (1 / 1000) 0 (Tree 3 1) degenerate_builder 0 0 = 1000 \<and>
   PerformBestSplit_gain (1 / 1000) 0 (Tree 3 1) degenerate_builder 0 1 = 1000"
proof -
  have c: "candidate degenerate_builder 1 1"
    by (simp add: candidate_def degenerate_builder_def FeatureRange_def)
  have "candidate degenerate_builder 0 0 \<and>
     PerformBestSplit_gain (1 / 1000) 0 (Tree 3 1) degenerate_builder 0 0 = 1000 \<and>
     (\<forall>f bin. candidate degenerate_builder f bin \<longrightarrow>
             PerformBestSplit_gain (1 / 1000) 0 (Tree 3 1) degenerate_builder 0 bin \<le> 1000 \<and>
             (PerformBestSplit_gain (1 / 1000) 0 (Tree 3 1) degenerate_builder 0 bin = 1000 \<longrightarrow>
                0 < f \<or> (0 = f \<and> 0 \<le> bin)))"
    using PerformBestSplit_search_tie_break [OF degenerate_search] by simp
  moreover have "PerformBestSplit_gain (1 / 1000) 0 (Tree 3 1) degenerate_builder 0 1 = 1000"
    by (simp add: PerformBestSplit_gain_def degenerate_builder_def Tree_def for_loop_def)
  ultimately show ?thesis using c degenerate_search by simp
qed

section \<open>\<^verbatim>\<open>UpdatePositions\<close>\<close>

lemma update_loop:
  fixes F :: "int \<Rightarrow> 'a \<Rightarrow> 'a"
  assumes "a \<le> b"
  shows "length (for_loop a b (\<lambda>i ps. ps[nat (i - a) := F i (ps ! nat (i - a))]) ps0) = length ps0 \<and>
         (\<forall>k < length ps0.
            for_loop a b (\<lambda>i ps. ps[nat (i - a) := F i (ps ! nat (i - a))]) ps0 ! k =
              (if int k < b - a then F (a + int k) (ps0 ! k) else ps0 ! k))"
proof (rule for_loop_induct [OF assms, where P = "\<lambda>i ps. length ps = length ps0 \<and>
         (\<forall>k < length ps0. ps ! k = (if int k < i - a then F (a + int k) (ps0 ! k) else ps0 ! k))"])
  show "length ps0 = length ps0 \<and>
    (\<forall>k<length ps0. ps0 ! k = (if int k < a - a then F (a + int k) (ps0 ! k) else ps0 ! k))"
    by simp
next
  fix i s
  assume i: "a \<le> i" "i < b"
    and s: "length s = length ps0 \<and>
         (\<forall>k < length ps0. s ! k = (if int k < i - a then F (a + int k) (ps0 ! k) else ps0 ! k))"
  have "s[nat (i - a) := F i (s ! nat (i - a))] ! k =
          (if int k < i + 1 - a then F (a + int k) (ps0 ! k) else ps0 ! k)"
    if k: "k < length ps0" for k
  proof (cases "k = nat (i - a)")
    case True
    then have ik: "int k = i - a" using i by simp
    then have "a + int k = i" by simp
    then show ?thesis using s k True ik by simp
  next
    case False
    then have "int k \<noteq> i - a" using i by auto
    then have "(int k < i + 1 - a) = (int k < i - a)" by auto
    then show ?thesis using s k False by simp
  qed
  then show "length (s[nat (i - a) := F i (s ! nat (i - a))]) = length ps0 \<and>
         (\<forall>k < length ps0. s[nat (i - a) := F i (s ! nat (i - a))] ! k =
            (if int k < i + 1 - a then F (a + int k) (ps0 ! k) else ps0 ! k))"
    using s by simp
qed

lemma UpdatePositions_positions:
  assumes "depth \<noteq> 0"
  shows "length (positions (UpdatePositions depth tree X X_shape tb)) = length (positions tb)"
    and "k < length (positions tb) \<Longrightarrow> int k \<le> hi X_shape 0 - lo X_shape 0 \<Longrightarrow>
         positions (UpdatePositions depth tree X X_shape tb) ! k
           = next_position tree X (lo X_shape 0 + int k) (positions tb ! k)"
proof -
  let ?F = "\<lambda>i p. next_position tree X i p"
  have body: "(\<lambda>i positions.
                  let index_local = i - lo X_shape 0;
                      pos = positions ! nat index_local
                  in if pos < 0 \<or> IsLeaf tree pos then positions[nat index_local := - 1]
                     else
                       let x = X (i, feature tree ! nat pos, 0);
                           left = (x \<le> split_value tree ! nat pos)
                       in positions[nat index_local :=
                                      (if left then LeftChild pos else RightChild pos)])
        = (\<lambda>i ps. ps[nat (i - lo X_shape 0) := ?F i (ps ! nat (i - lo X_shape 0))])"
    by (auto simp: fun_eq_iff Let_def next_position_def IsLeaf_def LeftChild_def RightChild_def)
  have pos: "positions (UpdatePositions depth tree X X_shape tb) =
      for_loop (lo X_shape 0) (hi X_shape 0 + 1)
        (\<lambda>i ps. ps[nat (i - lo X_shape 0) := ?F i (ps ! nat (i - lo X_shape 0))]) (positions tb)"
    using assms unfolding UpdatePositions_def body by simp
  show "length (positions (UpdatePositions depth tree X X_shape tb)) = length (positions tb)"
  proof (cases "lo X_shape 0 \<le> hi X_shape 0 + 1")
    case True
    then show ?thesis using update_loop [OF True, of ?F "positions tb"] pos by simp
  next
    case False
    then show ?thesis using pos by (simp add: for_loop_empty)
  qed
  show "positions (UpdatePositions depth tree X X_shape tb) ! k
           = next_position tree X (lo X_shape 0 + int k) (positions tb ! k)"
    if "k < length (positions tb)" "int k \<le> hi X_shape 0 - lo X_shape 0"
  proof -
    from that have le: "lo X_shape 0 \<le> hi X_shape 0 + 1" by linarith
    show ?thesis using update_loop [OF le, of ?F "positions tb"] pos that by simp
  qed
qed

text \<open>C7. \<^verbatim>\<open>UpdatePositions\<close> at depth 0 leaves the builder, and so all positions,
  unchanged. At any other depth it keeps the number of positions, and the position \<open>p\<close>
  of every local row becomes \<open>-1\<close> when \<open>p\<close> is negative or a leaf, \<open>2p+1\<close> when the value
  of the row at the feature of \<open>p\<close> is at most the split value of \<open>p\<close>, and \<open>2p+2\<close>
  otherwise.\<close>

theorem UpdatePositions_claim:
  "UpdatePositions 0 tree X X_shape tb = tb \<and>
   (depth \<noteq> 0 \<longrightarrow>
      length (positions (UpdatePositions depth tree X X_shape tb)) = length (positions tb) \<and>
      (\<forall>k < length (positions tb). int k \<le> hi X_shape 0 - lo X_shape 0 \<longrightarrow>
         positions (UpdatePositions depth tree X X_shape tb) ! k
           = next_position tree X (lo X_shape 0 + int k) (positions tb ! k)))"
  using UpdatePositions_positions [where depth = depth and tree = tree and X = X
      and X_shape = X_shape and tb = tb]
  by (simp add: UpdatePositions_def)

theorem UpdatePositions_claim_witness:
  "positions (UpdatePositions 1 scenario_tree scenario_X scenario_shape
       (TreeBuilder 4 1 1 3 scenario_proposals)) ! 1 = 1 \<and>
   positions (UpdatePositions 1 scenario_tree scenario_X scenario_shape
       (TreeBuilder 4 1 1 3 scenario_proposals)) ! 2 = 2"
proof -
  have f: "feature scenario_tree = [0, - 1, - 1]" "split_value scenario_tree = [0, 0, 0]"
    by (simp_all add: scenario_tree_def AddSplit_def Tree_def for_loop_def eval_nat_numeral)
  have p: "positions (TreeBuilder 4 1 1 3 scenario_proposals) = [0, 0, 0, 0]"
    by (simp add: TreeBuilder_def eval_nat_numeral)
  have n1: "next_position scenario_tree scenario_X 1 0 = 1"
    and n2: "next_position scenario_tree scenario_X 2 0 = 2"
    by (simp_all add: next_position_def f scenario_X_def)
  show ?thesis
    using UpdatePositions_claim [of scenario_tree scenario_X scenario_shape
        "TreeBuilder 4 1 1 3 scenario_proposals" 1] p n1 n2
    by (simp add: scenario_shape_def)
qed

section \<open>\<^verbatim>\<open>SelectSplitSamples\<close>: the shape of the proposals\<close>

lemma SelectSplitSamples_sort_invariant:
  fixes draft :: "real Buffer2"
  assumes nf: "0 \<le> nf"
    and res_def: "res = SelectSplitSamples_sort draft nf ss"
  shows "length (fst res) = nat (nf + 1) \<and> fst res ! 0 = 0 \<and>
         fst res ! nat nf = int (length (snd res)) \<and>
         (\<forall>f. 0 \<le> f \<and> f \<le> nf \<longrightarrow> 0 \<le> fst res ! nat f \<and> fst res ! nat f \<le> int (length (snd res))) \<and>
         (\<forall>f. 0 \<le> f \<and> f < nf \<longrightarrow> fst res ! nat f \<le> fst res ! nat (f + 1) \<and>
            (\<forall>x y. fst res ! nat f \<le> x \<and> x < y \<and> y < fst res ! nat (f + 1)
                \<longrightarrow> snd res ! nat x < snd res ! nat y))"
proof -
  define U where "U = (\<lambda>j. set (map (\<lambda>i. draft (j, i)) [0..ss - 1]))"
  define body where "body = (\<lambda>j (rp :: int list, tmp :: real list).
      (rp[nat (j + 1) := rp ! nat j + int (card (U j))], tmp @ sorted_list_of_set (U j)))"
  define P where "P = (\<lambda>j (st :: int list \<times> real list).
      length (fst st) = nat (nf + 1) \<and> fst st ! 0 = 0 \<and>
      fst st ! nat j = int (length (snd st)) \<and>
      (\<forall>f. 0 \<le> f \<and> f \<le> j \<longrightarrow> 0 \<le> fst st ! nat f \<and> fst st ! nat f \<le> int (length (snd st))) \<and>
      (\<forall>f. 0 \<le> f \<and> f < j \<longrightarrow> fst st ! nat f \<le> fst st ! nat (f + 1) \<and>
            (\<forall>x y. fst st ! nat f \<le> x \<and> x < y \<and> y < fst st ! nat (f + 1)
                \<longrightarrow> snd st ! nat x < snd st ! nat y)))"
  have res: "res = for_loop 0 nf body ((replicate (nat (nf + 1)) 0)[0 := 0], [])"
    unfolding res_def SelectSplitSamples_sort_def body_def U_def by (simp add: Let_def)
  have "P nf (for_loop 0 nf body ((replicate (nat (nf + 1)) 0)[0 := 0], []))"
  proof (rule for_loop_induct [OF nf])
    show "P 0 ((replicate (nat (nf + 1)) 0)[0 := 0], [])"
      using nf by (simp add: P_def)
  next
    fix j st
    assume j: "0 \<le> j" "j < nf" and st: "P j st"
    obtain rp tmp where [simp]: "st = (rp, tmp)" by (cases st)
    define sl where "sl = sorted_list_of_set (U j)"
    have fin: "finite (U j)" by (simp add: U_def)
    have len_sl: "length sl = card (U j)" by (simp add: sl_def)
    have sorted_sl: "sorted_wrt (<) sl" by (simp add: sl_def)
    define rp' where "rp' = rp[nat (j + 1) := rp ! nat j + int (card (U j))]"
    have b: "body j st = (rp', tmp @ sl)" by (simp add: body_def rp'_def sl_def)
    from st have len: "length rp = nat (nf + 1)" and z: "rp ! 0 = 0"
      and top: "rp ! nat j = int (length tmp)"
      and bnd: "\<And>f. 0 \<le> f \<Longrightarrow> f \<le> j \<Longrightarrow> 0 \<le> rp ! nat f \<and> rp ! nat f \<le> int (length tmp)"
      and srt: "\<And>f. 0 \<le> f \<Longrightarrow> f < j \<Longrightarrow> rp ! nat f \<le> rp ! nat (f + 1) \<and>
            (\<forall>x y. rp ! nat f \<le> x \<and> x < y \<and> y < rp ! nat (f + 1) \<longrightarrow> tmp ! nat x < tmp ! nat y)"
      by (auto simp: P_def)
    have old: "rp' ! nat f = rp ! nat f" if "0 \<le> f" "f \<le> j" for f
      using that by (simp add: rp'_def nat_eq_iff)
    have new: "rp' ! nat (j + 1) = int (length (tmp @ sl))"
      using j len top len_sl by (simp add: rp'_def)
    have 1: "length rp' = nat (nf + 1)" by (simp add: rp'_def len)
    have 2: "rp' ! 0 = 0" using old [of 0] j z by simp
    have 3: "0 \<le> rp' ! nat f \<and> rp' ! nat f \<le> int (length (tmp @ sl))"
      if "0 \<le> f" "f \<le> j + 1" for f
    proof (cases "f = j + 1")
      case True
      then show ?thesis using new by simp
    next
      case False
      then show ?thesis using that old [of f] bnd [of f] by simp
    qed
    have 4: "rp' ! nat f \<le> rp' ! nat (f + 1) \<and>
            (\<forall>x y. rp' ! nat f \<le> x \<and> x < y \<and> y < rp' ! nat (f + 1)
                \<longrightarrow> (tmp @ sl) ! nat x < (tmp @ sl) ! nat y)"
      if f: "0 \<le> f" "f < j + 1" for f
    proof (cases "f = j")
      case True
      have lo: "rp' ! nat f = int (length tmp)" using old [of j] True j top by simp
      have hi: "rp' ! nat (f + 1) = int (length tmp) + int (length sl)" using new True by simp
      have "(tmp @ sl) ! nat x < (tmp @ sl) ! nat y"
        if "int (length tmp) \<le> x" "x < y" "y < int (length tmp) + int (length sl)" for x y
      proof -
        have "nat x - length tmp < nat y - length tmp" "nat y - length tmp < length sl"
          using that by linarith+
        then have "sl ! (nat x - length tmp) < sl ! (nat y - length tmp)"
          using sorted_sl by (rule sorted_wrt_nth_less [rotated])
        moreover have "\<not> nat x < length tmp" "\<not> nat y < length tmp" using that by linarith+
        ultimately show ?thesis by (simp add: nth_append)
      qed
      then show ?thesis using lo hi by simp
    next
      case False
      then have fj: "f < j" using f by simp
      have a: "rp' ! nat f = rp ! nat f" using old [of f] f fj by simp
      have c: "rp' ! nat (f + 1) = rp ! nat (f + 1)" using old [of "f + 1"] f fj by simp
      have le: "rp ! nat (f + 1) \<le> int (length tmp)" using bnd [of "f + 1"] f fj by simp
      have ge: "0 \<le> rp ! nat f" using bnd [of f] f fj by simp
      have "(tmp @ sl) ! nat x < (tmp @ sl) ! nat y"
        if "rp ! nat f \<le> x" "x < y" "y < rp ! nat (f + 1)" for x y
      proof -
        have "nat x < length tmp" "nat y < length tmp" using that le ge by linarith+
        then show ?thesis using srt [OF f(1) fj] that by (simp add: nth_append)
      qed
      then show ?thesis using a c srt [OF f(1) fj] by simp
    qed
    have 5: "\<forall>f. 0 \<le> f \<and> f \<le> j + 1 \<longrightarrow>
        0 \<le> rp' ! nat f \<and> rp' ! nat f \<le> int (length (tmp @ sl))"
      using 3 by blast
    have 6: "\<forall>f. 0 \<le> f \<and> f < j + 1 \<longrightarrow> rp' ! nat f \<le> rp' ! nat (f + 1) \<and>
            (\<forall>x y. rp' ! nat f \<le> x \<and> x < y \<and> y < rp' ! nat (f + 1)
                \<longrightarrow> (tmp @ sl) ! nat x < (tmp @ sl) ! nat y)"
      using 4 by blast
    show "P (j + 1) (body j st)"
      unfolding b P_def fst_conv snd_conv using 1 2 5 6 new by blast
  qed
  then show ?thesis unfolding res P_def by simp
qed

lemma upto_03: "[0..3] = [0, 1, 2, 3]"
  by (simp add: upto_rec1)

lemma scenario_SelectSplitSamples:
  "SelectSplitSamples scenario_rng (scenario_context d n) scenario_X scenario_shape 4 0 4
     = scenario_proposals"
  by code_simp

text \<open>C9. The proposals that \<^verbatim>\<open>SelectSplitSamples\<close> returns have \<open>row_pointers[0] = 0\<close>,
  row pointers that do not decrease, and, within the range
  \<open>[row_pointers[f], row_pointers[f+1])\<close> of every feature \<open>f\<close>, thresholds that increase
  strictly. The shape of \<open>X\<close> has a feature axis of non-negative extent.\<close>

theorem SelectSplitSamples_invariant:
  assumes "lo X_shape 1 \<le> hi X_shape 1 + 1"
    and "sp = SelectSplitSamples rng context X X_shape split_samples seed' dataset_rows'"
  shows "row_pointers sp ! 0 = 0 \<and>
         (\<forall>f. 0 \<le> f \<and> f < SparseSplitProposals.num_features sp \<longrightarrow>
            row_pointers sp ! nat f \<le> row_pointers sp ! nat (f + 1) \<and>
            (\<forall>x y. row_pointers sp ! nat f \<le> x \<and> x < y \<and> y < row_pointers sp ! nat (f + 1)
               \<longrightarrow> SparseSplitProposals.split_proposals sp ! nat x
                     < SparseSplitProposals.split_proposals sp ! nat y))"
proof -
  define nf where "nf = hi X_shape 1 - lo X_shape 1 + 1"
  define draft where "draft = SumAllReduce (others_draft_proposals context)
             (\<lambda>(j, i). 0 \<le> j \<and> j < nf \<and> 0 \<le> i \<and> i < split_samples)
             (SelectSplitSamples_draft X X_shape split_samples
                (map (rng seed' dataset_rows') [0..<nat split_samples]))"
  define res where "res = SelectSplitSamples_sort draft nf split_samples"
  have nf: "0 \<le> nf" using assms(1) by (simp add: nf_def)
  have sp: "row_pointers sp = fst res" "SparseSplitProposals.split_proposals sp = snd res"
    "SparseSplitProposals.num_features sp = nf"
    unfolding assms(2) SelectSplitSamples_def res_def draft_def nf_def
    by (simp_all add: Let_def case_prod_beta)
  show ?thesis
    using SelectSplitSamples_sort_invariant [OF nf res_def] unfolding sp by blast
qed

theorem SelectSplitSamples_invariant_witness:
  "lo scenario_shape 1 \<le> hi scenario_shape 1 + 1 \<and>
   row_pointers (SelectSplitSamples scenario_rng (scenario_context 1 3) scenario_X scenario_shape 4 0 4) ! 0 = 0 \<and>
   row_pointers (SelectSplitSamples scenario_rng (scenario_context 1 3) scenario_X scenario_shape 4 0 4) ! 1 = 2 \<and>
   SparseSplitProposals.split_proposals
      (SelectSplitSamples scenario_rng (scenario_context 1 3) scenario_X scenario_shape 4 0 4) ! 0
   < SparseSplitProposals.split_proposals
      (SelectSplitSamples scenario_rng (scenario_context 1 3) scenario_X scenario_shape 4 0 4) ! 1"
proof -
  have h: "lo scenario_shape 1 \<le> hi scenario_shape 1 + 1" by (simp add: scenario_shape_def)
  have r: "row_pointers (SelectSplitSamples scenario_rng (scenario_context 1 3) scenario_X scenario_shape 4 0 4) ! nat (0 + 1) = 2"
    "SparseSplitProposals.num_features (SelectSplitSamples scenario_rng (scenario_context 1 3) scenario_X scenario_shape 4 0 4) = 1"
    by (simp_all add: scenario_SelectSplitSamples scenario_proposals_def)
  let ?sp = "SelectSplitSamples scenario_rng (scenario_context 1 3) scenario_X scenario_shape 4 0 4"
  note inv = SelectSplitSamples_invariant [OF h refl, of scenario_rng "scenario_context 1 3" scenario_X 4 0 4]
  from inv have z: "row_pointers ?sp ! 0 = 0" by blast
  from inv have A: "\<forall>f. 0 \<le> f \<and> f < SparseSplitProposals.num_features ?sp \<longrightarrow>
            row_pointers ?sp ! nat f \<le> row_pointers ?sp ! nat (f + 1) \<and>
            (\<forall>x y. row_pointers ?sp ! nat f \<le> x \<and> x < y \<and> y < row_pointers ?sp ! nat (f + 1)
               \<longrightarrow> SparseSplitProposals.split_proposals ?sp ! nat x
                     < SparseSplitProposals.split_proposals ?sp ! nat y)"
    by blast
  from A [THEN spec, of 0] r(2)
  have B: "\<forall>x y. row_pointers ?sp ! nat 0 \<le> x \<and> x < y \<and> y < row_pointers ?sp ! nat (0 + 1)
               \<longrightarrow> SparseSplitProposals.split_proposals ?sp ! nat x
                     < SparseSplitProposals.split_proposals ?sp ! nat y"
    by simp
  from B [THEN spec, THEN spec, of 0 1] r(1) z
  have "SparseSplitProposals.split_proposals ?sp ! 0 < SparseSplitProposals.split_proposals ?sp ! 1"
    by simp
  then show ?thesis using h z r(1) by simp
qed

section \<open>The positions follow the levels\<close>

lemma positions_ComputeHistogram [simp]:
  "positions (ComputeHistogram depth context tree X X_shape g h tb) = positions tb"
  by (simp add: ComputeHistogram_def Scan_def Let_def)

lemma positions_build_tree_level:
  "positions (snd (build_tree_level eps context i (tree, tb)))
     = positions (UpdatePositions (nat i) tree (accessor (input context 0)) (shape (input context 0)) tb)"
  by (simp add: build_tree_level_def Let_def)

lemma positions_build_tree_start:
  "positions (snd (build_tree_start eps rng context))
     = replicate (nat (max (hi (shape (input context 0)) 0 - lo (shape (input context 0)) 0 + 1) 0)) 0"
  by (simp add: build_tree_start_def Let_def TreeBuilder_def)

lemma next_position_cases:
  "next_position tree X row p = - 1 \<or>
   (0 \<le> p \<and> (next_position tree X row p = LeftChild p \<or> next_position tree X row p = RightChild p))"
  by (simp add: next_position_def LeftChild_def RightChild_def)

lemma child_in_next_level:
  assumes "LevelBegin d \<le> p" "p < LevelBegin (d + 1)"
  shows "LevelBegin (d + 1) \<le> LeftChild p" "LeftChild p < LevelBegin (d + 2)"
    "LevelBegin (d + 1) \<le> RightChild p" "RightChild p < LevelBegin (d + 2)"
  using assms by (simp_all add: LevelBegin_def LeftChild_def RightChild_def)

lemma UpdatePositions_level:
  assumes len: "length (positions tb) = nat (max (hi X_shape 0 - lo X_shape 0 + 1) 0)"
    and old: "\<forall>p \<in> set (positions tb). if d = 0 then p = 0 else in_level (d - 1) p"
  shows "\<forall>p \<in> set (positions (UpdatePositions d tree X X_shape tb)). in_level d p"
proof (cases "d = 0")
  case True
  then show ?thesis using old by (auto simp: UpdatePositions_def in_level_def)
next
  case False
  then obtain d' where d: "d = Suc d'" by (cases d) auto
  let ?ps' = "positions (UpdatePositions d tree X X_shape tb)"
  have l: "length ?ps' = length (positions tb)"
    using UpdatePositions_positions(1) [OF False] .
  have "in_level d (?ps' ! k)" if k: "k < length (positions tb)" for k
  proof -
    have "int k \<le> hi X_shape 0 - lo X_shape 0" using k len by linarith
    then have eq: "?ps' ! k = next_position tree X (lo X_shape 0 + int k) (positions tb ! k)"
      using UpdatePositions_positions(2) [OF False k] by simp
    have "in_level d' (positions tb ! k)" using old k False d by (auto simp: all_set_conv_all_nth)
    then have "in_level (Suc d') (next_position tree X (lo X_shape 0 + int k) (positions tb ! k))"
      using next_position_cases [of tree X "lo X_shape 0 + int k" "positions tb ! k"]
        child_in_next_level [of d' "positions tb ! k"]
      unfolding in_level_def LevelBegin_def by auto
    then show ?thesis using eq d by simp
  qed
  then show ?thesis using l by (auto simp: all_set_conv_all_nth in_set_conv_nth)
qed

lemma level_loop_positions:
  assumes N_def: "N = nat (max (hi (shape (input context 0)) 0 - lo (shape (input context 0)) 0 + 1) 0)"
  shows "length (positions (snd (for_loop 0 (int d) (build_tree_level eps context) (build_tree_start eps rng context)))) = N \<and>
     (\<forall>p \<in> set (positions (snd (for_loop 0 (int d) (build_tree_level eps context) (build_tree_start eps rng context)))).
        if d = 0 then p = 0 else in_level (d - 1) p)"
proof (induction d)
  case 0
  then show ?case by (simp add: for_loop_empty positions_build_tree_start N_def)
next
  case (Suc d)
  let ?st = "for_loop 0 (int d) (build_tree_level eps context) (build_tree_start eps rng context)"
  let ?X = "accessor (input context 0)" and ?sh = "shape (input context 0)"
  have step: "for_loop 0 (int (Suc d)) (build_tree_level eps context) (build_tree_start eps rng context)
      = build_tree_level eps context (int d) ?st"
    using for_loop_last [of 0 "int (Suc d)"] by simp
  have pos: "positions (snd (build_tree_level eps context (int d) ?st))
      = positions (UpdatePositions d (fst ?st) ?X ?sh (snd ?st))"
    using positions_build_tree_level [of eps "context" "int d" "fst ?st" "snd ?st"] by simp
  have len: "length (positions (snd ?st)) = nat (max (hi ?sh 0 - lo ?sh 0 + 1) 0)"
    using Suc.IH by (simp add: N_def)
  have "\<forall>p \<in> set (positions (UpdatePositions d (fst ?st) ?X ?sh (snd ?st))). in_level d p"
    using UpdatePositions_level [OF len] Suc.IH by blast
  moreover have "length (positions (UpdatePositions d (fst ?st) ?X ?sh (snd ?st))) = N"
    using Suc.IH UpdatePositions_positions(1) [of d] by (cases "d = 0") (simp_all add: UpdatePositions_def)
  ultimately show ?case unfolding step pos by simp
qed

text \<open>C10. Let \<open>d\<close> be a depth that the loop over the depths reaches, and \<open>(tree, tb)\<close> the
  tree and the builder when iteration \<open>d\<close> starts (so the loop continues from them). After
  \<^verbatim>\<open>UpdatePositions(d)\<close> every position is \<open>-1\<close> or a node of level \<open>d\<close>, that is, lies in
  \<open>[2^d - 1, 2^(d+1) - 1)\<close>. The positions start at 0, the root, and \<^verbatim>\<open>UpdatePositions(d)\<close>
  moves the position of a row to \<open>-1\<close> or to a child of its node (and keeps it at depth 0).\<close>

theorem positions_in_level:
  assumes "int d < scalar_max_depth context"
    and "(tree, tb) = for_loop 0 (int d) (build_tree_level eps context) (build_tree_start eps rng context)"
    and "tb' = UpdatePositions d tree (accessor (input context 0)) (shape (input context 0)) tb"
  shows "build_tree_grow eps rng context
           = for_loop (int d) (scalar_max_depth context) (build_tree_level eps context) (tree, tb) \<and>
         (\<forall>p \<in> set (positions (snd (build_tree_start eps rng context))). p = 0) \<and>
         (\<forall>p \<in> set (positions tb'). p = - 1 \<or> (2 ^ d - 1 \<le> p \<and> p < 2 ^ (d + 1) - 1)) \<and>
         length (positions tb') = length (positions tb) \<and>
         (\<forall>k < length (positions tb).
            (d = 0 \<and> positions tb' ! k = positions tb ! k) \<or>
            positions tb' ! k = - 1 \<or>
            positions tb' ! k = LeftChild (positions tb ! k) \<or>
            positions tb' ! k = RightChild (positions tb ! k))"
proof -
  let ?X = "accessor (input context 0)" and ?sh = "shape (input context 0)"
  have st: "tb = snd (for_loop 0 (int d) (build_tree_level eps context) (build_tree_start eps rng context))"
    using assms(2) by (metis snd_conv)
  note inv = level_loop_positions [OF refl, of d eps "context" rng, folded st]
  have len: "length (positions tb) = nat (max (hi ?sh 0 - lo ?sh 0 + 1) 0)"
    using inv by simp
  have 1: "build_tree_grow eps rng context
           = for_loop (int d) (scalar_max_depth context) (build_tree_level eps context) (tree, tb)"
    unfolding build_tree_grow_def assms(2)
    using for_loop_split [of 0 "int d" "scalar_max_depth context"] assms(1) by simp
  have 2: "\<forall>p \<in> set (positions (snd (build_tree_start eps rng context))). p = 0"
    by (simp add: positions_build_tree_start)
  have 3: "\<forall>p \<in> set (positions tb'). p = - 1 \<or> (2 ^ d - 1 \<le> p \<and> p < 2 ^ (d + 1) - 1)"
    using UpdatePositions_level [OF len, of d tree ?X] inv unfolding assms(3) in_level_def by blast
  have 4: "length (positions tb') = length (positions tb)"
    unfolding assms(3) using UpdatePositions_positions(1) [of d]
    by (cases "d = 0") (simp_all add: UpdatePositions_def)
  have 5: "(d = 0 \<and> positions tb' ! k = positions tb ! k) \<or>
            positions tb' ! k = - 1 \<or>
            positions tb' ! k = LeftChild (positions tb ! k) \<or>
            positions tb' ! k = RightChild (positions tb ! k)" if k: "k < length (positions tb)" for k
  proof (cases "d = 0")
    case True
    then show ?thesis by (simp add: assms(3) UpdatePositions_def)
  next
    case False
    have "int k \<le> hi ?sh 0 - lo ?sh 0" using k len by linarith
    then have "positions tb' ! k = next_position tree ?X (lo ?sh 0 + int k) (positions tb ! k)"
      unfolding assms(3) using UpdatePositions_positions(2) [OF False k] by simp
    then show ?thesis
      using next_position_cases [of tree ?X "lo ?sh 0 + int k" "positions tb ! k"] by auto
  qed
  show ?thesis using 1 2 3 4 5 by blast
qed

lemma scenario_positions:
  "positions (UpdatePositions 1
      (fst (for_loop 0 (int 1) (build_tree_level (1 / 1000) (scenario_context 2 7))
              (build_tree_start (1 / 1000) scenario_rng (scenario_context 2 7))))
      (accessor (input (scenario_context 2 7) 0)) (shape (input (scenario_context 2 7) 0))
      (snd (for_loop 0 (int 1) (build_tree_level (1 / 1000) (scenario_context 2 7))
              (build_tree_start (1 / 1000) scenario_rng (scenario_context 2 7)))))
   = [1, 1, 2, 2]"
  by code_simp

theorem positions_in_level_witness:
  "int 1 < scalar_max_depth (scenario_context 2 7) \<and>
   positions (UpdatePositions 1
      (fst (for_loop 0 (int 1) (build_tree_level (1 / 1000) (scenario_context 2 7))
              (build_tree_start (1 / 1000) scenario_rng (scenario_context 2 7))))
      (accessor (input (scenario_context 2 7) 0)) (shape (input (scenario_context 2 7) 0))
      (snd (for_loop 0 (int 1) (build_tree_level (1 / 1000) (scenario_context 2 7))
              (build_tree_start (1 / 1000) scenario_rng (scenario_context 2 7)))))
   = [1, 1, 2, 2] \<and>
   (2::int) ^ 1 - 1 \<le> 2 \<and> (2::int) < 2 ^ (1 + 1) - 1"
proof -
  have h: "int 1 < scalar_max_depth (scenario_context 2 7)"
    by (simp add: scenario_context_def)
  let ?st = "for_loop 0 (int 1) (build_tree_level (1 / 1000) (scenario_context 2 7))
              (build_tree_start (1 / 1000) scenario_rng (scenario_context 2 7))"
  have st: "(fst ?st, snd ?st) = ?st" by simp
  note t = positions_in_level [OF h st refl]
  from t have "\<forall>p \<in> set (positions (UpdatePositions 1 (fst ?st)
      (accessor (input (scenario_context 2 7) 0)) (shape (input (scenario_context 2 7) 0)) (snd ?st))).
      p = - 1 \<or> (2 ^ 1 - 1 \<le> p \<and> p < 2 ^ (1 + 1) - 1)"
    by blast
  then show ?thesis using h scenario_positions by simp
qed

section \<open>\<^verbatim>\<open>InitialiseRoot\<close> and the tree of depth 0\<close>

lemma int_interval_last: "(a::int) \<le> i \<Longrightarrow> {a..i} = insert i {a..<i}"
  by auto

lemma InitialiseRoot_sums_nth:
  assumes "0 \<le> j" "j < no"
  shows "InitialiseRoot_sums no g h r ! nat j = (rows_sum g r j, rows_sum h r j)"
proof -
  define inner where "inner = (\<lambda>i (bs :: GPair list).
      for_loop 0 no (\<lambda>j bs. bs[nat j := GPair_add (bs ! nat j) (g (i, 0, j), h (i, 0, j))]) bs)"
  have inner: "length (inner i bs) = length bs \<and>
      (\<forall>k < length bs. inner i bs ! k =
         (if int k < no then GPair_add (bs ! k) (g (i, 0, int k), h (i, 0, int k)) else bs ! k))" for i bs
  proof -
    have no: "0 \<le> no" using assms by simp
    show ?thesis
      using update_loop [OF no, of "\<lambda>j v. GPair_add v (g (i, 0, j), h (i, 0, j))" bs]
      by (simp add: inner_def)
  qed
  define P where "P = (\<lambda>i (bs :: GPair list). length bs = nat no \<and>
      (\<forall>k < nat no. bs ! k = (sum (\<lambda>i'. g (i', 0, int k)) {lo r 0..<i}, sum (\<lambda>i'. h (i', 0, int k)) {lo r 0..<i})))"
  have sums: "InitialiseRoot_sums no g h r = for_loop (lo r 0) (hi r 0 + 1) inner (replicate (nat no) GPair_zero)"
    by (simp add: InitialiseRoot_sums_def inner_def)
  show ?thesis
  proof (cases "lo r 0 \<le> hi r 0 + 1")
    case True
    have "P (hi r 0 + 1) (for_loop (lo r 0) (hi r 0 + 1) inner (replicate (nat no) GPair_zero))"
    proof (rule for_loop_induct [OF True])
      show "P (lo r 0) (replicate (nat no) GPair_zero)" by (simp add: P_def GPair_zero_def)
    next
      fix i s
      assume i: "lo r 0 \<le> i" "i < hi r 0 + 1" and s: "P i s"
      show "P (i + 1) (inner i s)"
        using s inner [of i s] i by (auto simp: P_def GPair_add_def int_interval_Suc)
    qed
    moreover have "{lo r 0..<hi r 0 + 1} = {lo r 0..hi r 0}" by auto
    ultimately show ?thesis using assms by (simp add: sums P_def rows_sum_def)
  next
    case False
    then have "{lo r 0..hi r 0} = {}" by auto
    then show ?thesis using False assms
      by (simp add: sums for_loop_empty rows_sum_def GPair_zero_def)
  qed
qed

lemma InitialiseRoot_fields:
  fixes bs :: "int \<Rightarrow> GPair" and eps alpha :: real and tree :: Tree
  defines "wr \<equiv> (\<lambda>i (tree :: Tree). let (G, H) = bs i
              in tree\<lparr> leaf_value := (leaf_value tree)((0, i) := CalculateLeafValue eps G H alpha),
                       gradient := (gradient tree)((0, i) := G),
                       hessian := (hessian tree)((0, i) := H) \<rparr>)"
  shows "feature (for_loop 0 no wr tree) = feature tree \<and>
         split_value (for_loop 0 no wr tree) = split_value tree \<and>
         gain (for_loop 0 no wr tree) = gain tree \<and>
         (\<forall>n output. gradient (for_loop 0 no wr tree) (n, output) =
            (if n = 0 \<and> 0 \<le> output \<and> output < no then fst (bs output) else gradient tree (n, output))) \<and>
         (\<forall>n output. hessian (for_loop 0 no wr tree) (n, output) =
            (if n = 0 \<and> 0 \<le> output \<and> output < no then snd (bs output) else hessian tree (n, output))) \<and>
         (\<forall>n output. leaf_value (for_loop 0 no wr tree) (n, output) =
            (if n = 0 \<and> 0 \<le> output \<and> output < no
             then CalculateLeafValue eps (fst (bs output)) (snd (bs output)) alpha
             else leaf_value tree (n, output)))"
proof (cases "0 \<le> no")
  case True
  define P where "P = (\<lambda>i (t :: Tree). feature t = feature tree \<and>
         split_value t = split_value tree \<and>
         gain t = gain tree \<and>
         (\<forall>n output. gradient t (n, output) =
            (if n = 0 \<and> 0 \<le> output \<and> output < i then fst (bs output) else gradient tree (n, output))) \<and>
         (\<forall>n output. hessian t (n, output) =
            (if n = 0 \<and> 0 \<le> output \<and> output < i then snd (bs output) else hessian tree (n, output))) \<and>
         (\<forall>n output. leaf_value t (n, output) =
            (if n = 0 \<and> 0 \<le> output \<and> output < i
             then CalculateLeafValue eps (fst (bs output)) (snd (bs output)) alpha
             else leaf_value tree (n, output))))"
  have "P no (for_loop 0 no wr tree)"
  proof (rule for_loop_induct [OF True])
    show "P 0 tree" by (simp add: P_def)
  next
    fix i s
    assume "0 \<le> i" "i < no" "P i s"
    then show "P (i + 1) (wr i s)"
      by (auto simp: P_def wr_def case_prod_beta)
  qed
  then show ?thesis by (simp add: P_def)
next
  case False
  then show ?thesis by (simp add: for_loop_empty)
qed

lemma sum_list_rows: "sum_list (map (\<lambda>r. f r) xs) = (\<Sum>x\<leftarrow>xs. f x)"
  by simp


lemma SumAllReduce_GPair_apply:
  "SumAllReduce_GPair others region buf i =
     (if region i then (fst (buf i) + (\<Sum>r\<leftarrow>others. fst (r i)), snd (buf i) + (\<Sum>r\<leftarrow>others. snd (r i)))
      else buf i)"
  by (simp add: SumAllReduce_GPair_def SumAllReduce_def comp_def)

lemma build_tree_grow_depth_zero:
  "scalar_max_depth context \<le> 0 \<Longrightarrow> build_tree_grow eps rng context = build_tree_start eps rng context"
  by (simp add: build_tree_grow_def for_loop_empty)

lemma build_tree_fn_Inr:
  "build_tree_fn eps rng context = Inr out \<Longrightarrow>
     out = WriteTreeOutput (fst (build_tree_grow eps rng context))"
  by (auto simp: build_tree_fn_def Let_def split: sum.splits)

lemma scenario_geometry: "geometry_ok (scenario_context d n)"
  by (simp add: geometry_ok_def scenario_context_def scenario_shape_def)

lemma build_tree_fn_ok:
  "geometry_ok context \<Longrightarrow>
     build_tree_fn eps rng context = Inr (WriteTreeOutput (fst (build_tree_grow eps rng context)))"
  by (simp add: build_tree_fn_def geometry_ok_def Let_def EXPECT_def EXPECT_DENSE_ROW_MAJOR_def
      EXPECT_AXIS_ALIGNED_def)



text \<open>C8. When \<open>max_depth = 0\<close> the tree that is written is the root alone: the feature of
  every node is \<open>-1\<close>, and for every output \<open>o\<close> the gradient and the hessian of the root
  are the sums \<open>G\<close> and \<open>H\<close> of \<open>g\<close> and \<open>h\<close> over the rows of all shards (this shard and
  the shards \<open>shards\<close>, which hand their local sums to the collective), and the leaf value
  of the root is \<open>-G / (H + max \<epsilon> \<alpha>)\<close>.\<close>

theorem build_tree_fn_depth_zero:
  assumes "scalar_max_depth context = 0"
    and "build_tree_fn eps rng context = Inr out"
    and "tree = fst (build_tree_grow eps rng context)"
    and "g = input context 1" and "h = input context 2"
    and "others_base_sums context =
           map (\<lambda>(g', h', r') j.
                  InitialiseRoot_sums (hi (shape g) 2 - lo (shape g) 2 + 1) g' h' r' ! nat j) shards"
    and "0 \<le> output" and "output < hi (shape g) 2 - lo (shape g) 2 + 1"
    and "G = rows_sum (accessor g) (shape g) output + (\<Sum>(g', h', r')\<leftarrow>shards. rows_sum g' r' output)"
    and "H = rows_sum (accessor h) (shape g) output + (\<Sum>(g', h', r')\<leftarrow>shards. rows_sum h' r' output)"
  shows "out = WriteTreeOutput tree \<and>
         out_feature out = replicate (nat (scalar_max_nodes context)) (- 1) \<and>
         gradient tree (0, output) = G \<and>
         out_hessian out (0, output) = H \<and>
         out_leaf_value out (0, output) = - G / (H + max eps (scalar_alpha context))"
proof -
  define no where "no = hi (shape g) 2 - lo (shape g) 2 + 1"
  define tb where "tb = snd (build_tree_start eps rng context)"
  have no_tb: "TreeBuilder.num_outputs tb = no"
    by (simp add: tb_def build_tree_start_def Let_def TreeBuilder_def no_def assms(4))
  define bs where "bs = SumAllReduce_GPair (others_base_sums context) (\<lambda>j. 0 \<le> j \<and> j < no)
      (\<lambda>j. InitialiseRoot_sums no (accessor g) (accessor h) (shape g) ! nat j)"
  have tree: "tree = InitialiseRoot eps context (accessor g) (accessor h) (shape g)
      (scalar_alpha context) tb (Tree (scalar_max_nodes context) no)"
    unfolding assms(3) build_tree_grow_depth_zero [OF eq_refl [OF assms(1)]] tb_def
    by (simp add: build_tree_start_def Let_def no_def assms(4,5) TreeBuilder_def InitialiseRoot_def)
  note f = InitialiseRoot_fields [of no bs eps "scalar_alpha context" "Tree (scalar_max_nodes context) no"]
  have tree': "tree = for_loop 0 no (\<lambda>i (tree :: Tree). let (G, H) = bs i
              in tree\<lparr> leaf_value := (leaf_value tree)((0, i) := CalculateLeafValue eps G H (scalar_alpha context)),
                       gradient := (gradient tree)((0, i) := G),
                       hessian := (hessian tree)((0, i) := H) \<rparr>) (Tree (scalar_max_nodes context) no)"
    unfolding tree InitialiseRoot_def bs_def no_tb by (simp add: Let_def)
  have o: "0 \<le> output" "output < no" using assms(7,8) by (simp_all add: no_def)
  have loc: "InitialiseRoot_sums no a b r ! nat output = (rows_sum a r output, rows_sum b r output)" for a b r
    using InitialiseRoot_sums_nth [OF o] .
  have "fst (bs output) = G"
    unfolding bs_def SumAllReduce_GPair_apply assms(6,9) no_def [symmetric]
    using o by (simp add: loc comp_def case_prod_unfold)
  moreover have "snd (bs output) = H"
    unfolding bs_def SumAllReduce_GPair_apply assms(6,10) no_def [symmetric]
    using o by (simp add: loc comp_def case_prod_unfold)
  moreover have "out = WriteTreeOutput tree"
    using build_tree_fn_Inr [OF assms(2)] assms(3) by simp
  ultimately show ?thesis
    using f o unfolding tree' [symmetric]
    by (simp add: WriteTreeOutput_def Tree_def CalculateLeafValue_def)
qed

lemma scenario_rows_sum:
  "rows_sum scenario_g scenario_shape 0 = 0" "rows_sum scenario_h scenario_shape 0 = 4"
proof -
  have s: "{0..3::int} = {0, 1, 2, 3}" by auto
  show "rows_sum scenario_g scenario_shape 0 = 0" "rows_sum scenario_h scenario_shape 0 = 4"
    by (simp_all add: rows_sum_def scenario_shape_def scenario_g_def scenario_h_def s)
qed

theorem build_tree_fn_depth_zero_witness:
  "scalar_max_depth (scenario_context 0 1) = 0 \<and>
   build_tree_fn (1 / 1000) scenario_rng (scenario_context 0 1)
     = Inr (WriteTreeOutput (fst (build_tree_grow (1 / 1000) scenario_rng (scenario_context 0 1)))) \<and>
   out_feature (WriteTreeOutput (fst (build_tree_grow (1 / 1000) scenario_rng (scenario_context 0 1)))) = [- 1] \<and>
   gradient (fst (build_tree_grow (1 / 1000) scenario_rng (scenario_context 0 1))) (0, 0) = 0 \<and>
   out_hessian (WriteTreeOutput (fst (build_tree_grow (1 / 1000) scenario_rng (scenario_context 0 1)))) (0, 0) = 4 \<and>
   out_leaf_value (WriteTreeOutput (fst (build_tree_grow (1 / 1000) scenario_rng (scenario_context 0 1)))) (0, 0) = 0"
proof -
  let ?c = "scenario_context 0 1"
  have 1: "scalar_max_depth ?c = 0" by (simp add: scenario_context_def)
  have 2: "build_tree_fn (1 / 1000) scenario_rng ?c
     = Inr (WriteTreeOutput (fst (build_tree_grow (1 / 1000) scenario_rng ?c)))"
    by (simp add: build_tree_fn_ok scenario_geometry)
  have 6: "others_base_sums ?c =
           map (\<lambda>(g', h', r') j.
                  InitialiseRoot_sums (hi (shape (input ?c 1)) 2 - lo (shape (input ?c 1)) 2 + 1) g' h' r' ! nat j) []"
    by (simp add: scenario_context_def)
  have 7: "(0::int) \<le> 0" by simp
  have 8: "0 < hi (shape (input ?c 1)) 2 - lo (shape (input ?c 1)) 2 + 1"
    by (simp add: scenario_context_def scenario_shape_def)
  note t = build_tree_fn_depth_zero [OF 1 2 refl refl refl 6 7 8 refl refl]
  have a: "accessor (input ?c 1) = scenario_g" "accessor (input ?c 2) = scenario_h"
    "shape (input ?c 1) = scenario_shape" "scalar_max_nodes ?c = 1" "scalar_alpha ?c = 0"
    by (simp_all add: scenario_context_def)
  show ?thesis using t 1 2 unfolding a by (simp add: scenario_rows_sum)
qed

section \<open>The checks of \<^verbatim>\<open>build_tree_fn\<close>\<close>




section \<open>Internal nodes of the tree\<close>

lemma AddSplit_fields:
  fixes t :: Tree
  assumes t'_def: "t' = AddSplit node_id feature_id sv ll rl gn gl gr hl hr t"
  shows "feature t' = (feature t)[nat node_id := feature_id]"
    and "split_value t' = (split_value t)[nat node_id := sv]"
    and "gain t' = (gain t)[nat node_id := gn]"
    and "hessian t' (m, output) =
          (if 0 \<le> output \<and> output < int (length ll) \<and> m = RightChild node_id then hr ! nat output
           else if 0 \<le> output \<and> output < int (length ll) \<and> m = LeftChild node_id then hl ! nat output
           else hessian t (m, output))"
    and "gradient t' (m, output) =
          (if 0 \<le> output \<and> output < int (length ll) \<and> m = RightChild node_id then gr ! nat output
           else if 0 \<le> output \<and> output < int (length ll) \<and> m = LeftChild node_id then gl ! nat output
           else gradient t (m, output))"
proof -
  define t1 where "t1 = t\<lparr> feature := (feature t)[nat node_id := feature_id],
                  split_value := (split_value t)[nat node_id := sv],
                  gain := (gain t)[nat node_id := gn] \<rparr>"
  define wr where "wr = (\<lambda>output (t :: Tree).
              t\<lparr> gradient := (gradient t)
                     ((LeftChild node_id, output) := gl ! nat output,
                      (RightChild node_id, output) := gr ! nat output),
                 hessian := (hessian t)
                     ((LeftChild node_id, output) := hl ! nat output,
                      (RightChild node_id, output) := hr ! nat output),
                 leaf_value := (leaf_value t)
                     ((LeftChild node_id, output) := ll ! nat output,
                      (RightChild node_id, output) := rl ! nat output) \<rparr>)"
  define P where "P = (\<lambda>i (s :: Tree). feature s = feature t1 \<and> split_value s = split_value t1 \<and>
      gain s = gain t1 \<and>
      (\<forall>m output. hessian s (m, output) =
          (if 0 \<le> output \<and> output < i \<and> m = RightChild node_id then hr ! nat output
           else if 0 \<le> output \<and> output < i \<and> m = LeftChild node_id then hl ! nat output
           else hessian t (m, output))) \<and>
      (\<forall>m output. gradient s (m, output) =
          (if 0 \<le> output \<and> output < i \<and> m = RightChild node_id then gr ! nat output
           else if 0 \<le> output \<and> output < i \<and> m = LeftChild node_id then gl ! nat output
           else gradient t (m, output))))"
  have t': "t' = for_loop 0 (int (length ll)) wr t1"
    by (simp add: t'_def AddSplit_def Let_def t1_def wr_def)
  have "P (int (length ll)) (for_loop 0 (int (length ll)) wr t1)"
  proof (rule for_loop_induct)
    show "0 \<le> int (length ll)" by simp
    show "P 0 t1" by (simp add: P_def t1_def)
  next
    fix i s
    assume "0 \<le> i" "i < int (length ll)" "P i s"
    then show "P (i + 1) (wr i s)"
      by (auto simp: P_def wr_def)
  qed
  then have P: "P (int (length ll)) t'" by (simp add: t')
  show "feature t' = (feature t)[nat node_id := feature_id]"
    and "split_value t' = (split_value t)[nat node_id := sv]"
    and "gain t' = (gain t)[nat node_id := gn]"
    using P by (simp_all add: P_def t1_def)
  show "hessian t' (m, output) =
          (if 0 \<le> output \<and> output < int (length ll) \<and> m = RightChild node_id then hr ! nat output
           else if 0 \<le> output \<and> output < int (length ll) \<and> m = LeftChild node_id then hl ! nat output
           else hessian t (m, output))"
    using P unfolding P_def by blast
  show "gradient t' (m, output) =
          (if 0 \<le> output \<and> output < int (length ll) \<and> m = RightChild node_id then gr ! nat output
           else if 0 \<le> output \<and> output < int (length ll) \<and> m = LeftChild node_id then gl ! nat output
           else gradient t (m, output))"
    using P unfolding P_def by blast
qed

lemma child_distinct:
  "LeftChild m \<noteq> RightChild n" "(LeftChild m = LeftChild n) = (m = n)"
  "(RightChild m = RightChild n) = (m = n)"
  unfolding LeftChild_def RightChild_def by presburger+

lemma search_no_outputs:
  assumes "TreeBuilder.num_outputs tb \<le> 0"
  shows "fst (PerformBestSplit_search eps alpha tree tb node_id) = 0"
proof -
  have "PerformBestSplit_gain eps alpha tree tb node_id b = 0" for b
    using assms by (simp add: PerformBestSplit_gain_def for_loop_empty)
  then show ?thesis
    using search_first_best [of eps alpha tree tb node_id]
    by (cases "PerformBestSplit_search eps alpha tree tb node_id") (auto simp: first_best_def)
qed

lemma PerformBestSplit_node_cases:
  fixes tree :: Tree
  assumes "0 \<le> eps"
  shows "PerformBestSplit_node eps alpha tb node_id tree = tree \<or>
     (\<exists>best_gain best_feature sv ll rl gl gr hl hr.
        PerformBestSplit_node eps alpha tb node_id tree
             = AddSplit node_id best_feature sv ll rl best_gain gl gr hl hr tree \<and>
        eps < best_gain \<and> 0 < length ll \<and> 0 < hl ! 0 \<and> 0 < hr ! 0)"
proof -
  obtain bg bf bb where s: "PerformBestSplit_search eps alpha tree tb node_id = (bg, bf, bb)"
    by (cases "PerformBestSplit_search eps alpha tree tb node_id") auto
  define outputs where "outputs = [0..TreeBuilder.num_outputs tb - 1]"
  define H_L where "H_L = (\<lambda>output. snd (histogram_buffer tb (node_id, bb, output)))"
  define H_R where "H_R = (\<lambda>output. hessian tree (node_id, output) - H_L output)"
  show ?thesis
  proof (cases "eps < bg \<and> \<not> (map H_L outputs ! 0 \<le> 0 \<or> map H_R outputs ! 0 \<le> 0)")
    case False
    then have "PerformBestSplit_node eps alpha tb node_id tree = tree"
      using s by (auto simp: PerformBestSplit_node_def Let_def outputs_def H_L_def H_R_def)
    then show ?thesis by simp
  next
    case True
    have "0 < TreeBuilder.num_outputs tb"
    proof (rule ccontr)
      assume "\<not> 0 < TreeBuilder.num_outputs tb"
      then have "bg = 0" using search_no_outputs [of tb eps alpha tree node_id] s by simp
      then show False using True assms by simp
    qed
    then have len: "0 < length outputs" by (simp add: outputs_def)
    have "PerformBestSplit_node eps alpha tb node_id tree
          = AddSplit node_id bf
              (SparseSplitProposals.split_proposals (TreeBuilder.split_proposals tb) ! nat bb)
              (map (\<lambda>output. CalculateLeafValue eps (fst (histogram_buffer tb (node_id, bb, output)))
                      (H_L output) alpha) outputs)
              (map (\<lambda>output. CalculateLeafValue eps
                      (gradient tree (node_id, output) - fst (histogram_buffer tb (node_id, bb, output)))
                      (H_R output) alpha) outputs)
              bg
              (map (\<lambda>output. fst (histogram_buffer tb (node_id, bb, output))) outputs)
              (map (\<lambda>output. gradient tree (node_id, output) - fst (histogram_buffer tb (node_id, bb, output))) outputs)
              (map H_L outputs) (map H_R outputs) tree"
      using s True by (simp add: PerformBestSplit_node_def Let_def outputs_def H_L_def H_R_def)
    moreover have "0 < length (map (\<lambda>output. CalculateLeafValue eps (fst (histogram_buffer tb (node_id, bb, output)))
                      (H_L output) alpha) outputs)" using len by simp
    moreover have "0 < map H_L outputs ! 0" "0 < map H_R outputs ! 0" "eps < bg" using True by auto
    ultimately show ?thesis by blast
  qed
qed

lemma AddSplit_invariant:
  fixes t :: Tree
  assumes inv: "split_invariant eps t" and n: "0 \<le> node_id"
    and g: "eps < gn" and l: "0 < length ll" and h: "0 < hl ! 0" "0 < hr ! 0"
  shows "split_invariant eps (AddSplit node_id feature_id sv ll rl gn gl gr hl hr t)"
proof -
  define t' where "t' = AddSplit node_id feature_id sv ll rl gn gl gr hl hr t"
  note f = AddSplit_fields [OF t'_def]
  have len: "length (gain t') = length (feature t')" using inv by (simp add: f split_invariant_def)
  have "gain t' ! nat m > eps \<and> hessian t' (LeftChild m, 0) > 0 \<and> hessian t' (RightChild m, 0) > 0"
    if m: "0 \<le> m" "m < int (length (feature t'))" "feature t' ! nat m \<noteq> - 1" for m
  proof (cases "m = node_id")
    case True
    have "nat m < length (gain t)" using m inv by (simp add: f split_invariant_def)
    then have "gain t' ! nat m = gn" using True by (simp add: f)
    moreover have "hessian t' (LeftChild m, 0) = hl ! 0" "hessian t' (RightChild m, 0) = hr ! 0"
      using True l by (simp_all add: f child_distinct)
    ultimately show ?thesis using g h by simp
  next
    case False
    then have ne: "nat m \<noteq> nat node_id" using m n by simp
    have "feature t ! nat m \<noteq> - 1" "m < int (length (feature t))" using m ne by (simp_all add: f)
    then have old: "gain t ! nat m > eps" "hessian t (LeftChild m, 0) > 0" "hessian t (RightChild m, 0) > 0"
      using inv m(1) unfolding split_invariant_def by blast+
    have "gain t' ! nat m = gain t ! nat m" using ne by (simp add: f)
    moreover have "hessian t' (LeftChild m, 0) = hessian t (LeftChild m, 0)"
      "hessian t' (RightChild m, 0) = hessian t (RightChild m, 0)"
      using False child_distinct(1) [of m node_id] child_distinct(1) [of node_id m]
      by (simp_all add: f child_distinct(2,3))
    ultimately show ?thesis using old by simp
  qed
  then show ?thesis using len unfolding split_invariant_def t'_def by blast
qed

lemma PerformBestSplit_node_invariant:
  fixes tree :: Tree
  assumes "0 \<le> eps" "split_invariant eps tree" "0 \<le> node_id"
  shows "split_invariant eps (PerformBestSplit_node eps alpha tb node_id tree)"
  using PerformBestSplit_node_cases [OF assms(1), of alpha tb node_id tree]
    AddSplit_invariant [OF assms(2,3)] assms(2)
  by auto

lemma LevelBegin_nonneg: "0 \<le> LevelBegin d"
  by (simp add: LevelBegin_def)

lemma PerformBestSplit_invariant:
  fixes tree :: Tree
  assumes "0 \<le> eps" "split_invariant eps tree"
  shows "split_invariant eps (PerformBestSplit eps depth alpha tb tree)"
  unfolding PerformBestSplit_def
proof (rule for_loop_invariant [where P = "split_invariant eps"])
  show "split_invariant eps tree" by (rule assms(2))
next
  fix i and s :: Tree
  assume "LevelBegin depth \<le> i" "split_invariant eps s"
  then show "split_invariant eps (PerformBestSplit_node eps alpha tb i s)"
    using PerformBestSplit_node_invariant [OF assms(1), of s i] LevelBegin_nonneg [of depth] by simp
qed

lemma build_tree_start_invariant:
  "split_invariant eps (fst (build_tree_start eps rng context))"
proof -
  have "feature (fst (build_tree_start eps rng context)) = replicate (nat (scalar_max_nodes context)) (- 1)"
    "gain (fst (build_tree_start eps rng context)) = replicate (nat (scalar_max_nodes context)) 0"
    using InitialiseRoot_fields
    by (simp_all add: build_tree_start_def Let_def InitialiseRoot_def Tree_def)
  then show ?thesis by (auto simp: split_invariant_def)
qed

lemma build_tree_grow_invariant:
  assumes "0 \<le> eps"
  shows "split_invariant eps (fst (build_tree_grow eps rng context))"
  unfolding build_tree_grow_def
proof (rule for_loop_invariant [where P = "\<lambda>st. split_invariant eps (fst st)"])
  show "split_invariant eps (fst (build_tree_start eps rng context))"
    by (rule build_tree_start_invariant)
next
  fix i and s :: "Tree \<times> TreeBuilder"
  assume "split_invariant eps (fst s)"
  then show "split_invariant eps (fst (build_tree_level eps context i s))"
    using PerformBestSplit_invariant [OF assms]
    by (simp add: build_tree_level_def Let_def case_prod_beta)
qed

text \<open>C3. In every tree that \<^verbatim>\<open>build_tree_fn\<close> writes, every internal node \<open>n\<close> (a node
  whose feature is not \<open>-1\<close>) has \<open>gain[n] > \<epsilon>\<close>, \<open>hessian[LeftChild(n), 0] > 0\<close> and
  \<open>hessian[RightChild(n), 0] > 0\<close>. The constant \<open>\<epsilon>\<close> is not negative.\<close>

theorem build_tree_fn_internal_nodes:
  assumes "0 \<le> eps"
    and "build_tree_fn eps rng context = Inr out"
    and "0 \<le> n" and "n < int (length (out_feature out))"
    and "out_feature out ! nat n \<noteq> - 1"
  shows "out_gain out ! nat n > eps \<and>
         out_hessian out (LeftChild n, 0) > 0 \<and>
         out_hessian out (RightChild n, 0) > 0"
  using build_tree_grow_invariant [OF assms(1), of rng "context"] build_tree_fn_Inr [OF assms(2)] assms(3-5)
  unfolding split_invariant_def by (simp add: WriteTreeOutput_def)

lemma scenario_root_split:
  "out_feature (WriteTreeOutput (fst (build_tree_grow (1 / 1000) scenario_rng (scenario_context 1 3)))) = [0, - 1, - 1]"
  by code_simp

theorem build_tree_fn_internal_nodes_witness:
  "(0::real) \<le> 1 / 1000 \<and>
   build_tree_fn (1 / 1000) scenario_rng (scenario_context 1 3)
     = Inr (WriteTreeOutput (fst (build_tree_grow (1 / 1000) scenario_rng (scenario_context 1 3)))) \<and>
   out_feature (WriteTreeOutput (fst (build_tree_grow (1 / 1000) scenario_rng (scenario_context 1 3)))) ! nat 0 \<noteq> - 1 \<and>
   out_gain (WriteTreeOutput (fst (build_tree_grow (1 / 1000) scenario_rng (scenario_context 1 3)))) ! nat 0 > 1 / 1000 \<and>
   out_hessian (WriteTreeOutput (fst (build_tree_grow (1 / 1000) scenario_rng (scenario_context 1 3)))) (LeftChild 0, 0) > 0 \<and>
   out_hessian (WriteTreeOutput (fst (build_tree_grow (1 / 1000) scenario_rng (scenario_context 1 3)))) (RightChild 0, 0) > 0"
proof -
  let ?out = "WriteTreeOutput (fst (build_tree_grow (1 / 1000) scenario_rng (scenario_context 1 3)))"
  have 1: "(0::real) \<le> 1 / 1000" by simp
  have 2: "build_tree_fn (1 / 1000) scenario_rng (scenario_context 1 3) = Inr ?out"
    by (simp add: build_tree_fn_ok scenario_geometry)
  have 3: "(0::int) \<le> 0" by simp
  have 4: "0 < int (length (out_feature ?out))" by (simp add: scenario_root_split)
  have 5: "out_feature ?out ! nat 0 \<noteq> - 1" by (simp add: scenario_root_split)
  show ?thesis
    using build_tree_fn_internal_nodes [OF 1 2 3 4 5] 1 2 5 by simp
qed

section \<open>Sibling subtraction\<close>

lemma GPair_add_zero [simp]: "GPair_add a GPair_zero = a" "GPair_add GPair_zero a = a"
  by (simp_all add: GPair_add_def GPair_zero_def)

lemma GPair_sum_empty [simp]: "GPair_sum f {} = GPair_zero"
  by (simp add: GPair_sum_def GPair_zero_def)



lemma GPair_sum_zero [simp]: "GPair_sum (\<lambda>_. GPair_zero) S = GPair_zero"
  by (simp add: GPair_sum_def GPair_zero_def)




lemma GPair_add_commute: "GPair_add a b = GPair_add b a"
  by (simp add: GPair_add_def)






















lemma GPair_sum_list_Cons [simp]:
  "GPair_sum_list (x # xs) = GPair_add x (GPair_sum_list xs)"
  by (simp add: GPair_sum_list_def GPair_add_def)

lemma GPair_sum_list_Nil [simp]: "GPair_sum_list [] = GPair_zero"
  by (simp add: GPair_sum_list_def GPair_zero_def)


lemma UpdatePositions_constants [simp]:
  "TreeBuilder.split_proposals (UpdatePositions d tree X X_shape tb) = TreeBuilder.split_proposals tb"
  "TreeBuilder.num_features (UpdatePositions d tree X X_shape tb) = TreeBuilder.num_features tb"
  "TreeBuilder.num_outputs (UpdatePositions d tree X X_shape tb) = TreeBuilder.num_outputs tb"
  "histogram_buffer (UpdatePositions d tree X X_shape tb) = histogram_buffer tb"
  by (simp_all add: UpdatePositions_def)











lemma covered_candidate:
  "covered tb (TreeBuilder.num_features tb) bin = (\<exists>f. candidate tb f bin)"
  by (auto simp: covered_def candidate_def)






end
